theory Spec2Isabelle
  imports Main
begin

section \<open>Python values and exceptions\<close>

text \<open>
  The search agent of \<^verbatim>\<open>src/backend/brave_search_agent.py\<close> works on the values
  that \<^verbatim>\<open>json.loads\<close> produces. A Python \<^verbatim>\<open>dict\<close> with string keys is the list of
  its items in insertion order (keys distinct), a \<^verbatim>\<open>list\<close> is a list, \<^verbatim>\<open>None\<close> is
  \<open>JNull\<close>. A \<^verbatim>\<open>float\<close> is carried by its \<^verbatim>\<open>repr\<close> text, which determines it.
  Text is a list of code points below 256.
\<close>

datatype json =
    JNull
  | JBool bool
  | JInt int
  | JFloat string
  | JStr string
  | JArr "json list"
  | JObj "(string \<times> json) list"

text \<open>
  The exception classes the two handlers of the module tell apart:
  \<^verbatim>\<open>json.JSONDecodeError\<close>, any other subclass of \<^verbatim>\<open>Exception\<close> (a transport or
  provider error, \<^verbatim>\<open>ValueError\<close>, \<^verbatim>\<open>RecursionError\<close>), and the classes that derive
  from \<^verbatim>\<open>BaseException\<close> only (\<^verbatim>\<open>asyncio.CancelledError\<close>, \<^verbatim>\<open>KeyboardInterrupt\<close>).
\<close>

datatype py_exception =
    JSONDecodeError
  | OtherException string
  | BaseExceptionOnly string

text \<open>\<^verbatim>\<open>except json.JSONDecodeError\<close> and \<^verbatim>\<open>except Exception\<close>.\<close>

fun is_JSONDecodeError :: "py_exception \<Rightarrow> bool" where
  "is_JSONDecodeError JSONDecodeError = True"
| "is_JSONDecodeError (OtherException _) = False"
| "is_JSONDecodeError (BaseExceptionOnly _) = False"

fun is_Exception :: "py_exception \<Rightarrow> bool" where
  "is_Exception JSONDecodeError = True"
| "is_Exception (OtherException _) = True"
| "is_Exception (BaseExceptionOnly _) = False"

subsection \<open>Truthiness, \<^verbatim>\<open>or\<close>, \<^verbatim>\<open>dict.get\<close>\<close>

fun truthy :: "json \<Rightarrow> bool" where
  "truthy JNull = False"
| "truthy (JBool b) = b"
| "truthy (JInt i) = (i \<noteq> 0)"
| "truthy (JFloat r) = (r \<noteq> ''0.0'' \<and> r \<noteq> ''-0.0'')"
| "truthy (JStr s) = (s \<noteq> [])"
| "truthy (JArr xs) = (xs \<noteq> [])"
| "truthy (JObj kvs) = (kvs \<noteq> [])"

text \<open>\<^verbatim>\<open>a or b\<close>: the left operand when it is truthy, the right one otherwise.\<close>

definition py_or :: "json \<Rightarrow> json \<Rightarrow> json" where
  "py_or a b = (if truthy a then a else b)"

text \<open>\<^verbatim>\<open>d.get(k)\<close> gives \<^verbatim>\<open>None\<close> for a missing key, \<^verbatim>\<open>d.get(k, default)\<close> the default.\<close>

definition dict_get :: "(string \<times> json) list \<Rightarrow> string \<Rightarrow> json" where
  "dict_get d k = (case map_of d k of None \<Rightarrow> JNull | Some v \<Rightarrow> v)"

definition dict_get_default :: "(string \<times> json) list \<Rightarrow> string \<Rightarrow> json \<Rightarrow> json" where
  "dict_get_default d k dflt = (case map_of d k of None \<Rightarrow> dflt | Some v \<Rightarrow> v)"

subsection \<open>\<^verbatim>\<open>str()\<close> and \<^verbatim>\<open>repr()\<close>\<close>

definition digit_char :: "nat \<Rightarrow> char" where
  "digit_char n = char_of (48 + n)"

function nat_digits :: "nat \<Rightarrow> string" where
  "nat_digits n = (if n < 10 then [digit_char n] else nat_digits (n div 10) @ [digit_char (n mod 10)])"
  by pat_completeness auto
termination
  by (relation "measure (\<lambda>n. n)") auto

definition int_str :: "int \<Rightarrow> string" where
  "int_str i = (if i < 0 then CHR ''-'' # nat_digits (nat (- i)) else nat_digits (nat i))"

definition hex_char :: "nat \<Rightarrow> char" where
  "hex_char n = (if n < 10 then char_of (48 + n) else char_of (87 + n))"

text \<open>
  \<^verbatim>\<open>repr\<close> of a \<^verbatim>\<open>str\<close>: single quotes unless the text has a single quote and no double
  quote; the quote and the backslash are escaped, tab, newline and carriage return have
  their letters, every other unprintable code point is written \<^verbatim>\<open>\xhh\<close>.
\<close>

definition printable :: "char \<Rightarrow> bool" where
  "printable c = (let n = (of_char c :: nat) in (32 \<le> n \<and> n < 127) \<or> (161 \<le> n \<and> n \<noteq> 173))"

definition repr_char :: "char \<Rightarrow> char \<Rightarrow> string" where
  "repr_char q c =
     (if c = q \<or> c = CHR 0x5C then [CHR 0x5C, c]
      else if c = CHR 0x09 then [CHR 0x5C, CHR ''t'']
      else if c = CHR 0x0A then [CHR 0x5C, CHR ''n'']
      else if c = CHR 0x0D then [CHR 0x5C, CHR ''r'']
      else if printable c then [c]
      else [CHR 0x5C, CHR ''x'', hex_char ((of_char c :: nat) div 16), hex_char ((of_char c :: nat) mod 16)])"

definition repr_str :: "string \<Rightarrow> string" where
  "repr_str s =
     (let q = (if CHR 0x27 \<in> set s \<and> CHR 0x22 \<notin> set s then CHR 0x22 else CHR 0x27)
      in q # concat (map (repr_char q) s) @ [q])"

fun str_join :: "string \<Rightarrow> string list \<Rightarrow> string" where
  "str_join sep [] = []"
| "str_join sep [x] = x"
| "str_join sep (x # y # ys) = x @ sep @ str_join sep (y # ys)"

fun py_repr :: "json \<Rightarrow> string" where
  "py_repr JNull = ''None''"
| "py_repr (JBool b) = (if b then ''True'' else ''False'')"
| "py_repr (JInt i) = int_str i"
| "py_repr (JFloat r) = r"
| "py_repr (JStr s) = repr_str s"
| "py_repr (JArr xs) = ''['' @ str_join '', '' (map py_repr xs) @ '']''"
| "py_repr (JObj kvs) =
     ''{'' @ str_join '', '' (map (\<lambda>kv. repr_str (fst kv) @ '': '' @ py_repr (snd kv)) kvs) @ ''}''"

text \<open>\<^verbatim>\<open>str(v)\<close> is the text itself for a \<^verbatim>\<open>str\<close> and \<^verbatim>\<open>repr(v)\<close> for the rest.\<close>

fun py_str :: "json \<Rightarrow> string" where
  "py_str (JStr s) = s"
| "py_str v = py_repr v"

section \<open>Text operations of the Python library\<close>

text \<open>
  \<^verbatim>\<open>str.isspace\<close>, which is also what \<^verbatim>\<open>\s\<close> matches in a \<^verbatim>\<open>str\<close> pattern: the
  code points 9 to 13, 28 to 32, 133 and 160 (below 256).
\<close>

definition is_space :: "char \<Rightarrow> bool" where
  "is_space c =
     (let n = (of_char c :: nat) in (9 \<le> n \<and> n \<le> 13) \<or> (28 \<le> n \<and> n \<le> 32) \<or> n = 133 \<or> n = 160)"

text \<open>\<^verbatim>\<open>s.strip()\<close>.\<close>

definition strip :: "string \<Rightarrow> string" where
  "strip s = rev (dropWhile is_space (rev (dropWhile is_space s)))"

definition starts_with :: "string \<Rightarrow> string \<Rightarrow> bool" where
  "starts_with p s = (take (length p) s = p)"

text \<open>
  \<^verbatim>\<open>re.sub(r"^```(?:json)?\s*", "", s, flags=re.MULTILINE)\<close>, scanning from the left.
  The flag says whether the position is the start of a line (the start of the text, or
  right after a newline of the text, also one the previous match has consumed). A match
  is three backticks at the start of a line, the tag \<^verbatim>\<open>json\<close> when it follows, and all
  the whitespace after that; no part of the pattern can fail after the backticks, so
  there is no backtracking. The scan goes on right after the match.
\<close>

function re_sub_open_fence :: "bool \<Rightarrow> string \<Rightarrow> string" where
  "re_sub_open_fence bol [] = []"
| "re_sub_open_fence bol (c # cs) =
     (if bol \<and> starts_with ''```'' (c # cs) then
        (let after_ticks = drop 3 (c # cs);
             after_tag = (if starts_with ''json'' after_ticks then drop 4 after_ticks else after_ticks);
             ws = takeWhile is_space after_tag
         in re_sub_open_fence (ws \<noteq> [] \<and> last ws = CHR 0x0A) (dropWhile is_space after_tag))
      else c # re_sub_open_fence (c = CHR 0x0A) cs)"
  by pat_completeness auto
termination
proof (relation "measure (\<lambda>(bol, s). length s)", goal_cases)
  case 1
  show ?case by simp
next
  case (2 bol c cs after_ticks after_tag ws)
  have "length (dropWhile is_space after_tag) \<le> length after_tag"
    by (rule length_dropWhile_le)
  moreover have "length after_tag \<le> length after_ticks"
    using 2 by (simp split: if_splits)
  moreover have "length after_ticks < length (c # cs)"
    using 2 by simp
  ultimately show ?case by simp
next
  case 3
  show ?case by simp
qed

text \<open>
  \<^verbatim>\<open>re.sub(r"\s*```$", "", s, flags=re.MULTILINE)\<close>. At a position the greedy \<^verbatim>\<open>\s*\<close>
  takes the whole run of whitespace; a backtick is not whitespace, so giving some of the
  run back cannot help, and the match succeeds exactly when three backticks follow the
  run and the end of a line (the end of the text, or a newline) follows them.
\<close>

function re_sub_close_fence :: "string \<Rightarrow> string" where
  "re_sub_close_fence [] = []"
| "re_sub_close_fence (c # cs) =
     (let after_ws = dropWhile is_space (c # cs) in
      if starts_with ''```'' after_ws \<and>
         (case drop 3 after_ws of [] \<Rightarrow> True | d # _ \<Rightarrow> d = CHR 0x0A)
      then re_sub_close_fence (drop 3 after_ws)
      else c # re_sub_close_fence cs)"
  by pat_completeness auto
termination
proof (relation "measure length", goal_cases)
  case 1
  show ?case by simp
next
  case (2 c cs after_ws)
  have "length after_ws \<le> length (c # cs)"
    using 2 length_dropWhile_le [of is_space "c # cs"] by simp
  moreover have "starts_with ''```'' after_ws"
    using 2 by blast
  then have "length (take (length ''```'') after_ws) = length ''```''"
    unfolding starts_with_def by (rule arg_cong)
  then have "3 \<le> length after_ws"
    by simp
  ultimately show ?case by simp
next
  case 3
  show ?case by simp
qed

text \<open>\<^verbatim>\<open>s.find(c)\<close> and \<^verbatim>\<open>s.rfind(c)\<close> for a one-character \<^verbatim>\<open>c\<close>: an index, or \<open>-1\<close>.\<close>

fun find_from :: "char \<Rightarrow> string \<Rightarrow> nat \<Rightarrow> int" where
  "find_from c [] i = - 1"
| "find_from c (x # xs) i = (if x = c then int i else find_from c xs (Suc i))"

definition str_find :: "char \<Rightarrow> string \<Rightarrow> int" where
  "str_find c s = find_from c s 0"

fun rfind_from :: "char \<Rightarrow> string \<Rightarrow> nat \<Rightarrow> int \<Rightarrow> int" where
  "rfind_from c [] i found = found"
| "rfind_from c (x # xs) i found = rfind_from c xs (Suc i) (if x = c then int i else found)"

definition str_rfind :: "char \<Rightarrow> string \<Rightarrow> int" where
  "str_rfind c s = rfind_from c s 0 (- 1)"

text \<open>
  \<^verbatim>\<open>xs[a:b]\<close>: a negative index counts from the end, and both are cut to the length.
\<close>

definition slice_index :: "nat \<Rightarrow> int \<Rightarrow> nat" where
  "slice_index n i = (if i < 0 then nat (max 0 (int n + i)) else min n (nat i))"

definition py_slice :: "'a list \<Rightarrow> int \<Rightarrow> int \<Rightarrow> 'a list" where
  "py_slice xs a b =
     (let i = slice_index (length xs) a; j = slice_index (length xs) b in take (j - i) (drop i xs))"

section \<open>Output recovery: \<^verbatim>\<open>_extract_json\<close>\<close>

text \<open>
  \<^verbatim>\<open>json.loads\<close> is the standard library's decoder and is a parameter: it returns a
  value or raises.
\<close>

type_synonym loader = "string \<Rightarrow> py_exception + json"

text \<open>The text after the two substitutions (lines 58 and 59).\<close>

definition fence_stripped :: "string \<Rightarrow> string" where
  "fence_stripped text = re_sub_close_fence (strip (re_sub_open_fence True (strip text)))"

text \<open>
  The loop over the bracket pairs (lines 68 to 78). \<^verbatim>\<open>continue\<close> and falling off the
  end of the body both go to the next pair; an exception that is not a
  \<^verbatim>\<open>JSONDecodeError\<close> leaves the function.
\<close>

fun extract_brackets :: "loader \<Rightarrow> string \<Rightarrow> (char \<times> char) list \<Rightarrow> py_exception + json" where
  "extract_brackets loads text [] = Inr JNull"
| "extract_brackets loads text ((start_char, end_char) # pairs) =
     (let start = str_find start_char text in
      if start = - 1 then extract_brackets loads text pairs
      else
        (let end_pos = str_rfind end_char text in
         if end_pos > start then
           (case loads (py_slice text start (end_pos + 1)) of
              Inr v \<Rightarrow> Inr v
            | Inl e \<Rightarrow> if is_JSONDecodeError e then extract_brackets loads text pairs else Inl e)
         else extract_brackets loads text pairs))"

definition bracket_pairs :: "(char \<times> char) list" where
  "bracket_pairs = [(CHR ''{'', CHR ''}''), (CHR ''['', CHR '']'')]"

definition extract_json :: "loader \<Rightarrow> string \<Rightarrow> py_exception + json" where
  "extract_json loads text0 =
     (let text = fence_stripped text0 in
      case loads text of
        Inr v \<Rightarrow> Inr v
      | Inl e \<Rightarrow> if is_JSONDecodeError e then extract_brackets loads text bracket_pairs else Inl e)"

section \<open>Result sanitizer: \<^verbatim>\<open>_sanitize_result\<close>\<close>

text \<open>
  The dictionary the function returns is a \<open>JObj\<close> with its five keys in the order of
  the source; \<^verbatim>\<open>str(...)\<close> gives a Python \<^verbatim>\<open>str\<close>, a \<open>JStr\<close>.
\<close>

definition sanitize_result :: "(string \<times> json) list \<Rightarrow> json" where
  "sanitize_result raw = JObj
     [(''title'', JStr (py_str (py_or (dict_get raw ''title'') (JStr [])))),
      (''url'', JStr (py_str (py_or (dict_get raw ''url'') (JStr [])))),
      (''source'', JStr (py_str
         (py_or (dict_get raw ''source'')
           (py_or (dict_get raw ''domain'') (py_or (dict_get raw ''publisher'') (JStr [])))))),
      (''published_at'',
         py_or (dict_get raw ''published_at'')
           (py_or (dict_get raw ''publishedAt'') (py_or (dict_get raw ''date'') JNull))),
      (''snippet'', JStr (py_str
         (py_or (dict_get raw ''snippet'') (py_or (dict_get raw ''description'') (JStr [])))))]"

text \<open>\<^verbatim>\<open>[_sanitize_result(r) for r in raw_results if isinstance(r, dict)]\<close> (line 181).\<close>

fun sanitize_dicts :: "json list \<Rightarrow> json list" where
  "sanitize_dicts [] = []"
| "sanitize_dicts (JObj raw # rs) = sanitize_result raw # sanitize_dicts rs"
| "sanitize_dicts (r # rs) = sanitize_dicts rs"

section \<open>The public operation: \<^verbatim>\<open>brave_search\<close>\<close>

definition MODEL :: string where
  "MODEL = ''openai/gpt-5-nano''"

definition MCP_SERVERS :: "string list" where
  "MCP_SERVERS = [''tsion/brave-search-mcp'']"

definition MAX_RESULTS :: int where
  "MAX_RESULTS = 10"

definition mode_instruction :: "string \<Rightarrow> string" where
  "mode_instruction mode =
     (if mode = ''news''
      then ''Focus on RECENT NEWS articles. Prefer results from the last 7 days. '' @
           ''Use news-specific search if available. ''
      else [])"

text \<open>The f-string of lines 122 to 143; \<open>limit\<close> is the clamped limit.\<close>

definition prompt :: "string \<Rightarrow> string \<Rightarrow> int \<Rightarrow> string" where
  \<open>prompt query mode limit =
     ''Search for: '' @ query @ ''\<newline>\<newline>'' @
     mode_instruction mode @
     ''Use the brave-search-mcp tools to search the web.\<newline>\<newline>'' @
     ''Return ONLY valid JSON with NO markdown, NO commentary, NO explanation.\<newline>'' @
     ''The JSON must follow this exact schema:\<newline>'' @
     ''{\<newline>'' @
     ''  "query": "'' @ query @ ''",\<newline>'' @
     ''  "results": [\<newline>'' @
     ''    {\<newline>'' @
     ''      "title": "<page title>",\<newline>'' @
     ''      "url": "<full URL>",\<newline>'' @
     ''      "source": "<publisher or domain name>",\<newline>'' @
     ''      "published_at": "<ISO 8601 date string or null>",\<newline>'' @
     ''      "snippet": "<brief description or summary>"\<newline>'' @
     ''    }\<newline>'' @
     ''  ]\<newline>'' @
     ''}\<newline>\<newline>'' @
     ''Return exactly '' @ int_str limit @ '' results. '' @
     ''If fewer results are found, return as many as available. '' @
     ''Output ONLY the JSON object, nothing else.''\<close>

definition empty_response :: "string \<Rightarrow> json" where
  "empty_response query = JObj [(''query'', JStr query), (''results'', JArr [])]"

text \<open>
  Lines 163 to 189: from the recovered value to the response. \<open>limit\<close> is the clamped
  limit.
\<close>

definition build_response :: "string \<Rightarrow> int \<Rightarrow> json \<Rightarrow> json" where
  "build_response query limit parsed0 =
     (if parsed0 = JNull then empty_response query
      else
        (let parsed =
           (case parsed0 of
              JArr xs \<Rightarrow> JObj [(''query'', JStr query), (''results'', JArr xs)]
            | _ \<Rightarrow> parsed0)
         in case parsed of
              JObj d \<Rightarrow>
                (let raw_results0 = dict_get_default d ''results'' (JArr []);
                     raw_results = (case raw_results0 of JArr rs \<Rightarrow> rs | _ \<Rightarrow> []);
                     results = sanitize_dicts raw_results;
                     results = py_slice results 0 limit
                 in JObj [(''query'', dict_get_default d ''query'' (JStr query)),
                          (''results'', JArr results)])
            | _ \<Rightarrow> empty_response query))"

text \<open>
  The remote collaborator: building the client and the runner and awaiting
  \<^verbatim>\<open>runner.run(input=prompt, model=MODEL, mcp_servers=MCP_SERVERS)\<close>. It raises, or it
  returns a result whose \<^verbatim>\<open>final_output\<close> is a text or \<^verbatim>\<open>None\<close>.
\<close>

type_synonym runner = "string \<Rightarrow> string \<Rightarrow> string list \<Rightarrow> py_exception + string option"

text \<open>The body of the \<^verbatim>\<open>try\<close> (lines 146 to 189).\<close>

definition search_attempt :: "loader \<Rightarrow> runner \<Rightarrow> string \<Rightarrow> string \<Rightarrow> int \<Rightarrow> py_exception + json" where
  "search_attempt loads run query mode limit =
     (case run (prompt query mode limit) MODEL MCP_SERVERS of
        Inl e \<Rightarrow> Inl e
      | Inr final_output \<Rightarrow>
          (let raw_output = (case final_output of None \<Rightarrow> [] | Some out \<Rightarrow> out) in
           case extract_json loads raw_output of
             Inl e \<Rightarrow> Inl e
           | Inr parsed \<Rightarrow> Inr (build_response query limit parsed)))"

text \<open>
  \<^verbatim>\<open>brave_search(query, mode=..., limit=...)\<close>: \<open>Inl\<close> is an exception that leaves
  the function, \<open>Inr\<close> the dictionary it returns. Logging is left out.
\<close>

definition brave_search :: "loader \<Rightarrow> runner \<Rightarrow> string \<Rightarrow> string \<Rightarrow> int \<Rightarrow> py_exception + json" where
  "brave_search loads run query mode limit0 =
     (let limit = min (max 1 limit0) MAX_RESULTS in
      case search_attempt loads run query mode limit of
        Inr response \<Rightarrow> Inr response
      | Inl e \<Rightarrow> if is_Exception e then Inr (empty_response query) else Inl e)"

section \<open>The command-line forwarder: \<^verbatim>\<open>main\<close> of \<^verbatim>\<open>src/dedalus-mcp/main.py\<close>\<close>

text \<open>\<^verbatim>\<open>os.getenv(name, default)\<close> on an environment.\<close>

definition getenv :: "(string \<rightharpoonup> string) \<Rightarrow> string \<Rightarrow> string \<Rightarrow> string" where
  "getenv env name dflt = (case env name of None \<Rightarrow> dflt | Some v \<Rightarrow> v)"

text \<open>
  \<^verbatim>\<open>main\<close> assigns \<^verbatim>\<open>sys.argv\<close> and calls the entry point of the external server, which
  reads it: the entry point is a function of the argument vector.
\<close>

definition main :: "(string \<rightharpoonup> string) \<Rightarrow> (string list \<Rightarrow> 'r) \<Rightarrow> 'r" where
  "main env alpaca_cli_main =
     (let host = getenv env ''HOST'' ''0.0.0.0'';
          port = getenv env ''PORT'' ''8000'';
          transport = getenv env ''MCP_TRANSPORT'' ''streamable-http''
      in alpaca_cli_main
           [''alpaca-mcp-server'', ''serve'', ''--transport'', transport,
            ''--host'', host, ''--port'', port])"

section \<open>Collaborators for concrete runs\<close>

text \<open>
  A decoder given by a table of texts and the values \<^verbatim>\<open>json.loads\<close> gives for them;
  a text outside the table is one \<^verbatim>\<open>json.loads\<close> rejects in the runs below.
\<close>

definition table_loads :: "(string \<times> json) list \<Rightarrow> loader" where
  "table_loads table text = (case map_of table text of Some v \<Rightarrow> Inr v | None \<Rightarrow> Inl JSONDecodeError)"

text \<open>A runner that returns a fixed output, and one that fails.\<close>

definition run_returning :: "string option \<Rightarrow> runner" where
  "run_returning out p m servers = Inr out"

definition run_raising :: "py_exception \<Rightarrow> runner" where
  "run_raising e p m servers = Inl e"

text \<open>Fifteen records, the text that carries them and the value \<^verbatim>\<open>json.loads\<close> gives for it.\<close>

definition fifteen_titles :: "string list" where
  "fifteen_titles = [''a'', ''b'', ''c'', ''d'', ''e'', ''f'', ''g'', ''h'', ''i'', ''j'', ''k'', ''l'', ''m'', ''n'', ''o'']"

definition fifteen_text :: string where
  \<open>fifteen_text =
     ''{"results": ['' @ str_join '', '' (map (\<lambda>t. ''{"title": "'' @ t @ ''"}'') fifteen_titles) @ '']}''\<close>

definition fifteen_value :: json where
  "fifteen_value = JObj [(''results'', JArr (map (\<lambda>t. JObj [(''title'', JStr t)]) fifteen_titles))]"

definition titled :: "string \<Rightarrow> json" where
  "titled t = JObj [(''title'', JStr t), (''url'', JStr []), (''source'', JStr []),
                    (''published_at'', JNull), (''snippet'', JStr [])]"

section \<open>The coercion of a field, in the words of the description\<close>

text \<open>
  A field is read by its alternate names in order; an alternate that is absent, null or
  otherwise falsy is passed over, and the first truthy one counts.
\<close>

definition first_truthy :: "(string \<times> json) list \<Rightarrow> string list \<Rightarrow> json option" where
  "first_truthy raw names = List.find truthy (map (dict_get raw) names)"

text \<open>The text of a field: the default is the empty text.\<close>

definition text_of :: "json option \<Rightarrow> string" where
  "text_of found = (case found of None \<Rightarrow> [] | Some v \<Rightarrow> py_str v)"

section \<open>Recovery by brackets, in the words of the description\<close>

text \<open>The positions of a character in a text, ascending.\<close>

fun occurrences_from :: "char \<Rightarrow> string \<Rightarrow> nat \<Rightarrow> nat list" where
  "occurrences_from c [] i = []"
| "occurrences_from c (x # xs) i = (if x = c then [i] else []) @ occurrences_from c xs (Suc i)"

definition occurrences :: "char \<Rightarrow> string \<Rightarrow> nat list" where
  "occurrences c s = occurrences_from c s 0"

text \<open>The part of a text from position \<open>i\<close> to position \<open>j\<close>, both included.\<close>

definition inclusive :: "string \<Rightarrow> nat \<Rightarrow> nat \<Rightarrow> string" where
  "inclusive s i j = map ((!) s) [i ..< Suc j]"

text \<open>
  The span of a bracket pair: from the first occurrence of the opening character to the
  last occurrence of the closing one, when both occur and the closing position is after
  the opening position.
\<close>

definition bracket_span :: "string \<Rightarrow> char \<Rightarrow> char \<Rightarrow> string option" where
  "bracket_span s opening closing =
     (case occurrences opening s of
        [] \<Rightarrow> None
      | i # _ \<Rightarrow>
          (if occurrences closing s \<noteq> [] \<and> i < last (occurrences closing s)
           then Some (inclusive s i (last (occurrences closing s)))
           else None))"

text \<open>
  One pair after the other, the braces first: a span that parses is the answer, a span
  that does not parse and a missing span pass to the next pair, and after the last pair
  the answer is none.
\<close>

definition parse_span :: "loader \<Rightarrow> string option \<Rightarrow> json option" where
  "parse_span loads span =
     (case span of
        None \<Rightarrow> None
      | Some part \<Rightarrow> (case loads part of Inr v \<Rightarrow> Some v | Inl e \<Rightarrow> None))"

definition recover_by_brackets :: "loader \<Rightarrow> string \<Rightarrow> json" where
  "recover_by_brackets loads s =
     (case parse_span loads (bracket_span s (CHR ''{'') (CHR ''}'')) of
        Some v \<Rightarrow> v
      | None \<Rightarrow>
          (case parse_span loads (bracket_span s (CHR ''['') (CHR '']'')) of
             Some v \<Rightarrow> v
           | None \<Rightarrow> JNull))"

text \<open>
  The parts the recovery tries to parse: the span of the braces, and the span of the
  square brackets unless the span of the braces has parsed.
\<close>

definition attempted :: "loader \<Rightarrow> string \<Rightarrow> string \<Rightarrow> bool" where
  "attempted loads s part \<longleftrightarrow>
     bracket_span s (CHR ''{'') (CHR ''}'') = Some part \<or>
     (bracket_span s (CHR ''['') (CHR '']'') = Some part \<and>
      parse_span loads (bracket_span s (CHR ''{'') (CHR ''}'')) = None)"

text \<open>
  An output that names a very long integer, and \<^verbatim>\<open>json.loads\<close> on the texts of its run:
  the array with the integer literal of 5000 digits raises \<^verbatim>\<open>ValueError\<close> (the
  interpreter converts no integer text of more than 4300 digits), and no other text of
  the run is JSON.
\<close>

definition long_integer_array :: string where
  "long_integer_array = ''['' @ replicate 5000 (CHR ''1'') @ '']''"

definition long_integer_output :: string where
  "long_integer_output = ''Result: '' @ long_integer_array"

definition digit_limit_loads :: loader where
  "digit_limit_loads text =
     (if text = long_integer_array then Inl (OtherException ''ValueError'') else Inl JSONDecodeError)"

section \<open>Fenced text\<close>

text \<open>A text inside a \<^verbatim>\<open>json\<close> fence: the opening and the closing marker on lines of their own.\<close>

definition fence_wrap :: "string \<Rightarrow> string" where
  "fence_wrap t = ''```json\<newline>'' @ t @ ''\<newline>```''"

text \<open>
  The text begins with whitespace that does not end in a newline, and a fence marker
  comes right after it.
\<close>

definition fence_after_indent :: "string \<Rightarrow> bool" where
  "fence_after_indent t =
     (let indent = takeWhile is_space t in
      indent \<noteq> [] \<and> last indent \<noteq> CHR 0x0A \<and> starts_with ''```'' (dropWhile is_space t))"

section \<open>The response schema, in the words of the description\<close>

definition is_text :: "json \<Rightarrow> bool" where
  "is_text v = (case v of JStr s \<Rightarrow> True | _ \<Rightarrow> False)"

definition is_text_or_null :: "json \<Rightarrow> bool" where
  "is_text_or_null v = (case v of JStr s \<Rightarrow> True | JNull \<Rightarrow> True | _ \<Rightarrow> False)"

text \<open>A record with exactly the five fields, and texts in title, url, source and snippet.\<close>

definition five_field_record :: "json \<Rightarrow> bool" where
  "five_field_record r =
     (case r of
        JObj fields \<Rightarrow>
          map fst fields = [''title'', ''url'', ''source'', ''published_at'', ''snippet''] \<and>
          list_all (\<lambda>k. is_text (dict_get fields k)) [''title'', ''url'', ''source'', ''snippet'']
      | _ \<Rightarrow> False)"

text \<open>A SearchResult: such a record whose published_at is a text or null.\<close>

definition conformant_result :: "json \<Rightarrow> bool" where
  "conformant_result r =
     (five_field_record r \<and>
      (case r of JObj fields \<Rightarrow> is_text_or_null (dict_get fields ''published_at'') | _ \<Rightarrow> False))"

text \<open>A response with exactly the fields query and results, the results being such records.\<close>

definition two_field_response :: "json \<Rightarrow> bool" where
  "two_field_response response =
     (case response of
        JObj fields \<Rightarrow>
          map fst fields = [''query'', ''results''] \<and>
          (case dict_get fields ''results'' of JArr rs \<Rightarrow> list_all five_field_record rs | _ \<Rightarrow> False)
      | _ \<Rightarrow> False)"

text \<open>A SearchResponse: the query is a text and the results are SearchResults.\<close>

definition conformant_response :: "json \<Rightarrow> bool" where
  "conformant_response response =
     (case response of
        JObj fields \<Rightarrow>
          map fst fields = [''query'', ''results''] \<and>
          is_text (dict_get fields ''query'') \<and>
          (case dict_get fields ''results'' of JArr rs \<Rightarrow> list_all conformant_result rs | _ \<Rightarrow> False)
      | _ \<Rightarrow> False)"

text \<open>
  A recovered value whose own query, when it has one, is a text, and in whose records
  the first truthy alternate of the date, when there is one, is a text.
\<close>

definition recovered_results :: "json \<Rightarrow> json list" where
  "recovered_results v =
     (case v of
        JArr xs \<Rightarrow> xs
      | JObj d \<Rightarrow> (case dict_get_default d ''results'' (JArr []) of JArr rs \<Rightarrow> rs | _ \<Rightarrow> [])
      | _ \<Rightarrow> [])"

definition dated_by_text :: "json \<Rightarrow> bool" where
  "dated_by_text r =
     (case r of
        JObj raw \<Rightarrow>
          (case first_truthy raw [''published_at'', ''publishedAt'', ''date''] of
             None \<Rightarrow> True
           | Some d \<Rightarrow> is_text d)
      | _ \<Rightarrow> True)"

definition typed_as_documented :: "json \<Rightarrow> bool" where
  "typed_as_documented v =
     ((case v of
         JObj d \<Rightarrow> (case map_of d ''query'' of None \<Rightarrow> True | Some qv \<Rightarrow> is_text qv)
       | _ \<Rightarrow> True) \<and>
      list_all dated_by_text (recovered_results v))"

section \<open>Facts about the library operations\<close>

lemma clamp_limit_range: "1 \<le> min (max 1 l) MAX_RESULTS \<and> min (max 1 l) MAX_RESULTS \<le> 10"
  by (simp add: MAX_RESULTS_def)

lemma clamp_limit_cases:
  "min (max 1 l) MAX_RESULTS = (if l < 1 then 1 else if 10 < l then 10 else l)"
  by (simp add: MAX_RESULTS_def)

lemma py_slice_prefix: "0 \<le> n \<Longrightarrow> py_slice xs 0 n = take (nat n) xs"
  by (simp add: py_slice_def slice_index_def min_def)

lemma sanitize_dicts_comprehension: "sanitize_dicts rs = [sanitize_result d. JObj d \<leftarrow> rs]"
  by (induction rs rule: sanitize_dicts.induct) simp_all

lemma length_sanitize_dicts: "length (sanitize_dicts rs) \<le> length rs"
  by (induction rs rule: sanitize_dicts.induct) simp_all

section \<open>The response of \<^verbatim>\<open>brave_search\<close> for a recovered value\<close>

lemma build_response_JObj:
  "build_response q n (JObj d) =
     JObj [(''query'', dict_get_default d ''query'' (JStr q)),
           (''results'', JArr (py_slice
              (sanitize_dicts (case dict_get_default d ''results'' (JArr []) of JArr rs \<Rightarrow> rs | _ \<Rightarrow> []))
              0 n))]"
  by (simp add: build_response_def)

lemma build_response_JArr:
  "build_response q n (JArr xs) =
     JObj [(''query'', JStr q), (''results'', JArr (py_slice (sanitize_dicts xs) 0 n))]"
  by (simp add: build_response_def dict_get_default_def)

lemma build_response_other:
  "\<forall>xs. v \<noteq> JArr xs \<Longrightarrow> \<forall>d. v \<noteq> JObj d \<Longrightarrow> build_response q n v = empty_response q"
  by (cases v) (auto simp: build_response_def)

lemma brave_search_recovered:
  assumes "run (prompt q mode (min (max 1 l) MAX_RESULTS)) MODEL MCP_SERVERS = Inr out"
    and "extract_json loads (case out of None \<Rightarrow> [] | Some text \<Rightarrow> text) = Inr v"
  shows "brave_search loads run q mode l = Inr (build_response q (min (max 1 l) MAX_RESULTS) v)"
  using assms by (simp add: brave_search_def search_attempt_def Let_def)

lemma brave_search_run_raises:
  assumes "run (prompt q mode (min (max 1 l) MAX_RESULTS)) MODEL MCP_SERVERS = Inl e"
  shows "brave_search loads run q mode l = (if is_Exception e then Inr (empty_response q) else Inl e)"
  using assms by (simp add: brave_search_def search_attempt_def Let_def)

lemma brave_search_extract_raises:
  assumes "run (prompt q mode (min (max 1 l) MAX_RESULTS)) MODEL MCP_SERVERS = Inr out"
    and "extract_json loads (case out of None \<Rightarrow> [] | Some text \<Rightarrow> text) = Inl e"
  shows "brave_search loads run q mode l = (if is_Exception e then Inr (empty_response q) else Inl e)"
  using assms by (simp add: brave_search_def search_attempt_def Let_def)

section \<open>The command-line forwarder\<close>

text \<open>
  C9. For every environment, \<^verbatim>\<open>main\<close> reads \<^verbatim>\<open>HOST\<close>, \<^verbatim>\<open>PORT\<close> and
  \<^verbatim>\<open>MCP_TRANSPORT\<close> with the defaults \<^verbatim>\<open>0.0.0.0\<close>, \<^verbatim>\<open>8000\<close> and
  \<^verbatim>\<open>streamable-http\<close>, and calls the entry point of the external server with the
  program name followed by exactly the arguments
  \<^verbatim>\<open>serve --transport <transport> --host <host> --port <port>\<close>.
\<close>

theorem main_forwards_environment:
  "main env alpaca_cli_main =
     alpaca_cli_main
       (''alpaca-mcp-server'' #
        [''serve'',
         ''--transport'', (case env ''MCP_TRANSPORT'' of None \<Rightarrow> ''streamable-http'' | Some t \<Rightarrow> t),
         ''--host'', (case env ''HOST'' of None \<Rightarrow> ''0.0.0.0'' | Some h \<Rightarrow> h),
         ''--port'', (case env ''PORT'' of None \<Rightarrow> ''8000'' | Some p \<Rightarrow> p)])"
  by (simp add: main_def getenv_def)

section \<open>The mode of a search\<close>

text \<open>
  C10. For every mode other than \<^verbatim>\<open>"news"\<close> (the empty text, \<^verbatim>\<open>"News"\<close>,
  \<^verbatim>\<open>"video"\<close>, anything outside the declared modes), \<^verbatim>\<open>brave_search\<close> adds no mode
  instruction, builds the same prompt as for \<^verbatim>\<open>"web"\<close>, and so gives, with the same
  collaborators, the same outcome as for \<^verbatim>\<open>"web"\<close>: the mode is never validated and never
  makes the call fail.
\<close>

theorem mode_other_than_news_is_web:
  assumes "mode \<noteq> ''news''"
  shows "mode_instruction mode = [] \<and>
         prompt q mode n = prompt q ''web'' n \<and>
         brave_search loads run q mode l = brave_search loads run q ''web'' l"
proof -
  have instr: "mode_instruction mode = mode_instruction ''web''"
    using assms by (simp add: mode_instruction_def)
  have same: "prompt q mode k = prompt q ''web'' k" for k
    unfolding prompt_def instr ..
  have "search_attempt loads run q mode k = search_attempt loads run q ''web'' k" for k
    unfolding search_attempt_def same ..
  then have "brave_search loads run q mode l = brave_search loads run q ''web'' l"
    unfolding brave_search_def by simp
  moreover have "mode_instruction mode = []"
    using assms by (simp add: mode_instruction_def)
  ultimately show ?thesis
    using same by simp
qed

theorem mode_other_than_news_is_web_witness:
  "''News'' \<noteq> ''news'' \<and>
   mode_instruction ''News'' = [] \<and>
   prompt ''gold'' ''News'' 8 = prompt ''gold'' ''web'' 8 \<and>
   brave_search (table_loads []) (run_returning None) ''gold'' ''News'' 8 =
     brave_search (table_loads []) (run_returning None) ''gold'' ''web'' 8"
proof -
  have neq: "''News'' \<noteq> ''news''"
    by simp
  show ?thesis
    using neq mode_other_than_news_is_web [OF neq, of "''gold''" 8 "table_loads []" "run_returning None" 8]
    by simp
qed

lemma build_response_shape:
  assumes "0 \<le> n"
  shows "\<exists>qv rs. build_response q n v = JObj [(''query'', qv), (''results'', JArr rs)] \<and>
                 length rs \<le> nat n"
proof (cases v)
  case (JArr xs)
  then show ?thesis
    using assms by (simp add: build_response_JArr py_slice_prefix)
next
  case (JObj d)
  then show ?thesis
    using assms by (simp add: build_response_JObj py_slice_prefix)
qed (simp_all add: build_response_def empty_response_def)

section \<open>A recovered bare array\<close>

text \<open>
  C7. When the value recovered from the output is a sequence (a bare JSON array with no
  wrapper object), \<^verbatim>\<open>brave_search\<close> answers as it does for the wrapper
  \<^verbatim>\<open>{query: original query, results: that array}\<close>: the query of the response is the
  original query and its results are the array after sanitization and the limit.
\<close>

theorem bare_array_is_wrapped:
  assumes "run (prompt q mode (min (max 1 l) MAX_RESULTS)) MODEL MCP_SERVERS = Inr out"
    and "extract_json loads (case out of None \<Rightarrow> [] | Some text \<Rightarrow> text) = Inr (JArr xs)"
  shows "brave_search loads run q mode l =
           Inr (build_response q (min (max 1 l) MAX_RESULTS)
                  (JObj [(''query'', JStr q), (''results'', JArr xs)])) \<and>
         brave_search loads run q mode l =
           Inr (JObj [(''query'', JStr q),
                      (''results'', JArr (take (nat (min (max 1 l) MAX_RESULTS)) (sanitize_dicts xs)))])"
proof -
  have pos: "0 \<le> min (max 1 l) MAX_RESULTS"
    using clamp_limit_range [of l] by simp
  have "brave_search loads run q mode l =
          Inr (build_response q (min (max 1 l) MAX_RESULTS) (JArr xs))"
    using assms by (rule brave_search_recovered)
  moreover have "build_response q (min (max 1 l) MAX_RESULTS) (JArr xs) =
      build_response q (min (max 1 l) MAX_RESULTS) (JObj [(''query'', JStr q), (''results'', JArr xs)])"
    by (simp add: build_response_JArr build_response_JObj dict_get_default_def)
  moreover have "build_response q (min (max 1 l) MAX_RESULTS) (JArr xs) =
      JObj [(''query'', JStr q),
            (''results'', JArr (take (nat (min (max 1 l) MAX_RESULTS)) (sanitize_dicts xs)))]"
    using pos by (simp add: build_response_JArr py_slice_prefix)
  ultimately show ?thesis
    by simp
qed

theorem bare_array_is_wrapped_witness:
  "brave_search (table_loads [(''[{}, 7]'', JArr [JObj [], JInt 7])])
     (run_returning (Some ''[{}, 7]'')) ''gold'' ''web'' 8 =
   Inr (JObj [(''query'', JStr ''gold''),
              (''results'', JArr [JObj [(''title'', JStr []), (''url'', JStr []), (''source'', JStr []),
                                      (''published_at'', JNull), (''snippet'', JStr [])]])])"
proof -
  let ?loads = "table_loads [(''[{}, 7]'', JArr [JObj [], JInt 7])]"
  let ?run = "run_returning (Some ''[{}, 7]'')"
  have ran: "?run (prompt ''gold'' ''web'' (min (max 1 8) MAX_RESULTS)) MODEL MCP_SERVERS = Inr (Some ''[{}, 7]'')"
    by (simp add: run_returning_def)
  have recovered: "extract_json ?loads (case Some ''[{}, 7]'' of None \<Rightarrow> [] | Some text \<Rightarrow> text) =
      Inr (JArr [JObj [], JInt 7])"
    by code_simp
  have "brave_search ?loads ?run ''gold'' ''web'' 8 =
      Inr (JObj [(''query'', JStr ''gold''),
                 (''results'', JArr (take (nat (min (max 1 8) MAX_RESULTS))
                                       (sanitize_dicts [JObj [], JInt 7])))])"
    by (rule bare_array_is_wrapped [where run = "?run" and loads = "?loads"
          and out = "Some ''[{}, 7]''", THEN conjunct2])
      (rule ran, rule recovered)
  then show ?thesis
    by (simp add: MAX_RESULTS_def sanitize_result_def py_or_def dict_get_def)
qed

section \<open>The limit\<close>

lemma brave_search_shape:
  assumes "brave_search loads run q mode l = Inr resp"
  shows "\<exists>qv rs. resp = JObj [(''query'', qv), (''results'', JArr rs)] \<and>
                 length rs \<le> nat (min (max 1 l) MAX_RESULTS)"
proof -
  let ?n = "min (max 1 l) MAX_RESULTS"
  have pos: "0 \<le> ?n"
    using clamp_limit_range [of l] by simp
  have empty: "\<exists>qv rs. empty_response q = JObj [(''query'', qv), (''results'', JArr rs)] \<and>
                 length rs \<le> nat ?n"
    by (simp add: empty_response_def)
  show ?thesis
  proof (cases "run (prompt q mode ?n) MODEL MCP_SERVERS")
    case (Inl e)
    then have "brave_search loads run q mode l = (if is_Exception e then Inr (empty_response q) else Inl e)"
      by (rule brave_search_run_raises)
    with assms have "resp = empty_response q"
      by (simp split: if_splits)
    with empty show ?thesis
      by simp
  next
    case (Inr out)
    show ?thesis
    proof (cases "extract_json loads (case out of None \<Rightarrow> [] | Some text \<Rightarrow> text)")
      case (Inl e)
      with Inr have "brave_search loads run q mode l =
          (if is_Exception e then Inr (empty_response q) else Inl e)"
        by (rule brave_search_extract_raises)
      with assms have "resp = empty_response q"
        by (simp split: if_splits)
      with empty show ?thesis
        by simp
    next
      case inner: (Inr v)
      with Inr have "brave_search loads run q mode l = Inr (build_response q ?n v)"
        by (rule brave_search_recovered)
      with assms have "resp = build_response q ?n v"
        by simp
      then show ?thesis
        using build_response_shape [OF pos, of q v] by simp
    qed
  qed
qed

text \<open>
  C6. For every call of \<^verbatim>\<open>brave_search\<close> the limit in force is the requested limit
  clamped to 1..10; the results of a response are never more than that; and the limit
  cuts the sanitized records, so the results are the first so many sanitized records in
  their order.
\<close>

theorem limit_is_clamped_and_cuts_sanitized:
  "(let n = min (max 1 l) MAX_RESULTS in
      n = (if l < 1 then 1 else if 10 < l then 10 else l) \<and> 1 \<le> n \<and> n \<le> 10 \<and>
      (\<forall>resp. brave_search loads run q mode l = Inr resp \<longrightarrow>
         (\<exists>qv rs. resp = JObj [(''query'', qv), (''results'', JArr rs)] \<and> length rs \<le> nat n)) \<and>
      (\<forall>out d raw.
         run (prompt q mode n) MODEL MCP_SERVERS = Inr out \<and>
         extract_json loads (case out of None \<Rightarrow> [] | Some text \<Rightarrow> text) = Inr (JObj d) \<and>
         map_of d ''results'' = Some (JArr raw) \<longrightarrow>
         brave_search loads run q mode l =
           Inr (JObj [(''query'', dict_get_default d ''query'' (JStr q)),
                      (''results'', JArr (take (nat n) (sanitize_dicts raw)))])))"
proof -
  let ?n = "min (max 1 l) MAX_RESULTS"
  have pos: "0 \<le> ?n"
    using clamp_limit_range [of l] by simp
  have cut: "brave_search loads run q mode l =
           Inr (JObj [(''query'', dict_get_default d ''query'' (JStr q)),
                      (''results'', JArr (take (nat ?n) (sanitize_dicts raw)))])"
    if "run (prompt q mode ?n) MODEL MCP_SERVERS = Inr out"
      and "extract_json loads (case out of None \<Rightarrow> [] | Some text \<Rightarrow> text) = Inr (JObj d)"
      and "map_of d ''results'' = Some (JArr raw)" for out d raw
  proof -
    have "brave_search loads run q mode l = Inr (build_response q ?n (JObj d))"
      using that(1,2) by (rule brave_search_recovered)
    then show ?thesis
      using that(3) pos by (simp add: build_response_JObj dict_get_default_def py_slice_prefix)
  qed
  show ?thesis
    unfolding Let_def
    using clamp_limit_cases [of l] clamp_limit_range [of l] brave_search_shape [of loads run q mode l] cut
    by blast
qed

theorem limit_is_clamped_and_cuts_sanitized_witness:
  "brave_search (table_loads [(fifteen_text, fifteen_value)]) (run_returning (Some fifteen_text))
     ''gold'' ''web'' 5 =
   Inr (JObj [(''query'', JStr ''gold''),
              (''results'', JArr (map titled [''a'', ''b'', ''c'', ''d'', ''e'']))]) \<and>
   brave_search (table_loads [(fifteen_text, fifteen_value)]) (run_returning (Some fifteen_text))
     ''gold'' ''web'' 99 =
   Inr (JObj [(''query'', JStr ''gold''),
              (''results'', JArr (map titled [''a'', ''b'', ''c'', ''d'', ''e'', ''f'', ''g'', ''h'', ''i'', ''j'']))]) \<and>
   brave_search (table_loads [(fifteen_text, fifteen_value)]) (run_returning (Some fifteen_text))
     ''gold'' ''web'' (- 3) =
   Inr (JObj [(''query'', JStr ''gold''), (''results'', JArr [titled ''a''])])"
proof -
  let ?loads = "table_loads [(fifteen_text, fifteen_value)]"
  let ?run = "run_returning (Some fifteen_text)"
  let ?raw = "map (\<lambda>t. JObj [(''title'', JStr t)]) fifteen_titles"
  let ?d = "[(''results'', JArr ?raw)]"
  have ran: "?run (prompt ''gold'' ''web'' n) MODEL MCP_SERVERS = Inr (Some fifteen_text)" for n
    by (simp add: run_returning_def)
  have recovered: "extract_json ?loads (case Some fifteen_text of None \<Rightarrow> [] | Some text \<Rightarrow> text) =
      Inr (JObj ?d)"
    by code_simp
  have field: "map_of ?d ''results'' = Some (JArr ?raw)"
    by simp
  have cut: "brave_search ?loads ?run ''gold'' ''web'' l =
      Inr (JObj [(''query'', dict_get_default ?d ''query'' (JStr ''gold'')),
                 (''results'', JArr (take (nat (min (max 1 l) MAX_RESULTS)) (sanitize_dicts ?raw)))])" for l
    using limit_is_clamped_and_cuts_sanitized [of l ?loads ?run "''gold''" "''web''"] ran recovered field
    unfolding Let_def by blast
  have sanitized: "sanitize_dicts ?raw = map titled fifteen_titles"
    by (simp add: fifteen_titles_def titled_def sanitize_result_def py_or_def dict_get_def)
  show ?thesis
    unfolding cut sanitized
    by (simp add: dict_get_default_def fifteen_titles_def MAX_RESULTS_def)
qed

section \<open>The query of the response\<close>

text \<open>
  C4. The claim is that the query of the response is the recovered value's own
  \<^verbatim>\<open>query\<close> field when that field is present and truthy, and the original query
  otherwise. For the output \<^verbatim>\<open>{"query": null}\<close> the field is present and falsy, and
  the response carries that null, not the original query.
\<close>

theorem falsy_recovered_query_is_kept:
  \<open>brave_search (table_loads [(''{"query": null}'', JObj [(''query'', JNull)])])
     (run_returning (Some ''{"query": null}'')) ''gold'' ''web'' 8 =
   Inr (JObj [(''query'', JNull), (''results'', JArr [])]) \<and>
   \<not> truthy JNull \<and> JNull \<noteq> JStr ''gold''\<close>
  by code_simp

section \<open>The type of \<^verbatim>\<open>published_at\<close>\<close>

text \<open>
  C1. The claim is that \<^verbatim>\<open>published_at\<close> of every emitted record is a text or null.
  The sanitizer passes the first truthy alternate through without \<^verbatim>\<open>str\<close>: for the
  output \<^verbatim>\<open>{"results": [{"published_at": 42}]}\<close> the record has all five fields, and
  its \<^verbatim>\<open>published_at\<close> is the integer 42.
\<close>

theorem published_at_keeps_non_string:
  \<open>brave_search
     (table_loads [(''{"results": [{"published_at": 42}]}'',
                    JObj [(''results'', JArr [JObj [(''published_at'', JInt 42)]])])])
     (run_returning (Some ''{"results": [{"published_at": 42}]}'')) ''gold'' ''web'' 8 =
   Inr (JObj [(''query'', JStr ''gold''),
              (''results'', JArr [JObj [(''title'', JStr []), (''url'', JStr []), (''source'', JStr []),
                                      (''published_at'', JInt 42), (''snippet'', JStr [])]])])\<close>
  by code_simp

section \<open>The sanitizer\<close>

lemma first_truthy_None:
  "first_truthy raw names = None \<longleftrightarrow>
     (\<forall>k \<in> set names. case map_of raw k of None \<Rightarrow> True | Some v \<Rightarrow> \<not> truthy v)"
  by (auto simp: first_truthy_def find_None_iff dict_get_def split: option.splits)

lemma text_field_1: "py_str (py_or (dict_get raw a) (JStr [])) = text_of (first_truthy raw [a])"
  by (simp add: py_or_def first_truthy_def text_of_def)

lemma text_field_2:
  "py_str (py_or (dict_get raw a) (py_or (dict_get raw b) (JStr []))) = text_of (first_truthy raw [a, b])"
  by (simp add: py_or_def first_truthy_def text_of_def)

lemma text_field_3:
  "py_str (py_or (dict_get raw a) (py_or (dict_get raw b) (py_or (dict_get raw c) (JStr [])))) =
     text_of (first_truthy raw [a, b, c])"
  by (simp add: py_or_def first_truthy_def text_of_def)

lemma date_field:
  "py_or (dict_get raw a) (py_or (dict_get raw b) (py_or (dict_get raw c) JNull)) =
     (case first_truthy raw [a, b, c] of None \<Rightarrow> JNull | Some v \<Rightarrow> v)"
  by (simp add: py_or_def first_truthy_def)

text \<open>
  C3, as amended. The elements of the recovered results that are keyed structures are
  sanitized in their order and the others are dropped. The sanitizer reads each field
  by its alternate names in order (source from source, domain, publisher; published_at
  from published_at, publishedAt, date; snippet from snippet, description) and takes the
  first alternate whose value is truthy. When every alternate is absent, null or
  otherwise falsy the field is the default (the empty text, null for published_at). A
  truthy text is kept; a truthy value that is not a text is, for title, url, source and
  snippet, converted with \<^verbatim>\<open>str\<close> and not replaced by the default. Sanitizing
  \<^verbatim>\<open>{"title": "X", "domain": "example.com"}\<close> gives title X, url empty, source
  example.com, published_at null, snippet empty.
\<close>

theorem sanitizer_reads_alternates:
  "sanitize_dicts rs = [sanitize_result d. JObj d \<leftarrow> rs] \<and>
   (\<exists>published.
      sanitize_result raw =
        JObj [(''title'', JStr (text_of (first_truthy raw [''title'']))),
              (''url'', JStr (text_of (first_truthy raw [''url'']))),
              (''source'', JStr (text_of (first_truthy raw [''source'', ''domain'', ''publisher'']))),
              (''published_at'', published),
              (''snippet'', JStr (text_of (first_truthy raw [''snippet'', ''description''])))] \<and>
      (first_truthy raw [''published_at'', ''publishedAt'', ''date''] = None \<longrightarrow> published = JNull) \<and>
      (\<forall>s. first_truthy raw [''published_at'', ''publishedAt'', ''date''] = Some (JStr s) \<longrightarrow>
           published = JStr s)) \<and>
   (\<forall>names. first_truthy raw names = None \<longleftrightarrow>
      (\<forall>k \<in> set names. case map_of raw k of None \<Rightarrow> True | Some v \<Rightarrow> \<not> truthy v)) \<and>
   text_of None = [] \<and> (\<forall>s. text_of (Some (JStr s)) = s) \<and>
   sanitize_result [(''title'', JStr ''X''), (''domain'', JStr ''example.com'')] =
     JObj [(''title'', JStr ''X''), (''url'', JStr []), (''source'', JStr ''example.com''),
           (''published_at'', JNull), (''snippet'', JStr [])]"
proof -
  have fields: "sanitize_result raw =
        JObj [(''title'', JStr (text_of (first_truthy raw [''title'']))),
              (''url'', JStr (text_of (first_truthy raw [''url'']))),
              (''source'', JStr (text_of (first_truthy raw [''source'', ''domain'', ''publisher'']))),
              (''published_at'',
                 (case first_truthy raw [''published_at'', ''publishedAt'', ''date''] of
                    None \<Rightarrow> JNull | Some v \<Rightarrow> v)),
              (''snippet'', JStr (text_of (first_truthy raw [''snippet'', ''description''])))]"
    unfolding sanitize_result_def text_field_1 text_field_2 text_field_3 date_field ..
  have example: "sanitize_result [(''title'', JStr ''X''), (''domain'', JStr ''example.com'')] =
     JObj [(''title'', JStr ''X''), (''url'', JStr []), (''source'', JStr ''example.com''),
           (''published_at'', JNull), (''snippet'', JStr [])]"
    by (simp add: sanitize_result_def py_or_def dict_get_def)
  have dropped: "sanitize_dicts rs = [sanitize_result d. JObj d \<leftarrow> rs]"
    by (rule sanitize_dicts_comprehension)
  have coerced: "\<exists>published.
      sanitize_result raw =
        JObj [(''title'', JStr (text_of (first_truthy raw [''title'']))),
              (''url'', JStr (text_of (first_truthy raw [''url'']))),
              (''source'', JStr (text_of (first_truthy raw [''source'', ''domain'', ''publisher'']))),
              (''published_at'', published),
              (''snippet'', JStr (text_of (first_truthy raw [''snippet'', ''description''])))] \<and>
      (first_truthy raw [''published_at'', ''publishedAt'', ''date''] = None \<longrightarrow> published = JNull) \<and>
      (\<forall>s. first_truthy raw [''published_at'', ''publishedAt'', ''date''] = Some (JStr s) \<longrightarrow>
           published = JStr s)"
    by (rule exI [of _ "case first_truthy raw [''published_at'', ''publishedAt'', ''date''] of
                          None \<Rightarrow> JNull | Some v \<Rightarrow> v"])
      (simp add: fields)
  have defaults: "\<forall>names. first_truthy raw names = None \<longleftrightarrow>
      (\<forall>k \<in> set names. case map_of raw k of None \<Rightarrow> True | Some v \<Rightarrow> \<not> truthy v)"
    using first_truthy_None [of raw] by blast
  have no_text: "text_of None = []"
    by (simp add: text_of_def)
  have kept: "\<forall>s. text_of (Some (JStr s)) = s"
    by (simp add: text_of_def)
  show ?thesis
    by (rule conjI [OF dropped conjI [OF coerced conjI [OF defaults conjI [OF no_text conjI [OF kept example]]]]])
qed

theorem sanitizer_reads_alternates_witness:
  "sanitize_dicts [JStr ''bare'', JObj [(''title'', JStr ''X''), (''domain'', JStr ''example.com'')], JInt 3] =
     [JObj [(''title'', JStr ''X''), (''url'', JStr []), (''source'', JStr ''example.com''),
            (''published_at'', JNull), (''snippet'', JStr [])]]"
  using sanitizer_reads_alternates
    [of "[JStr ''bare'', JObj [(''title'', JStr ''X''), (''domain'', JStr ''example.com'')], JInt 3]"
        "[(''title'', JStr ''X''), (''domain'', JStr ''example.com'')]"]
  by simp

text \<open>
  The claim as first stated fails: a field of a type that a text field cannot use, a
  number or an array, does not fall back to the empty text.
\<close>

theorem truthy_non_string_is_stringified:
  "sanitize_result [(''title'', JArr [JInt 1]), (''url'', JInt 5)] =
     JObj [(''title'', JStr ''[1]''), (''url'', JStr ''5''), (''source'', JStr []),
           (''published_at'', JNull), (''snippet'', JStr [])]"
  by code_simp

section \<open>Exceptions of output recovery\<close>

lemma extract_brackets_raises:
  "extract_brackets loads text pairs = Inl e \<Longrightarrow> \<exists>s. loads s = Inl e"
proof (induction pairs)
  case Nil
  then show ?case by simp
next
  case (Cons p pairs)
  obtain a b where p: "p = (a, b)"
    by (cases p)
  from Cons show ?case
    unfolding p by (auto simp: Let_def split: if_splits sum.splits)
qed

lemma extract_json_raises: "extract_json loads text = Inl e \<Longrightarrow> \<exists>s. loads s = Inl e"
  unfolding extract_json_def Let_def
  by (auto split: sum.splits if_splits dest: extract_brackets_raises)

section \<open>Output recovery by brackets\<close>

lemma occurrences_from_set:
  "set (occurrences_from c s i) = {i + k |k. k < length s \<and> s ! k = c}"
proof (induction s arbitrary: i)
  case Nil
  then show ?case by simp
next
  case (Cons x xs)
  have "{i + k |k. k < length (x # xs) \<and> (x # xs) ! k = c} =
        (if x = c then {i} else {}) \<union> {Suc i + k |k. k < length xs \<and> xs ! k = c}"
    (is "?L = ?R")
  proof (intro set_eqI iffI)
    fix n assume "n \<in> ?L"
    then obtain k where k: "n = i + k" "k < length (x # xs)" "(x # xs) ! k = c"
      by blast
    show "n \<in> ?R"
    proof (cases k)
      case 0
      with k show ?thesis by simp
    next
      case (Suc j)
      with k have "n = Suc i + j" "j < length xs" "xs ! j = c"
        by simp_all
      then show ?thesis by blast
    qed
  next
    fix n assume "n \<in> ?R"
    then consider "x = c" "n = i" | j where "n = Suc i + j" "j < length xs" "xs ! j = c"
      by (auto split: if_splits)
    then show "n \<in> ?L"
    proof cases
      case 1
      then have "n = i + 0 \<and> 0 < length (x # xs) \<and> (x # xs) ! 0 = c"
        by simp
      then show ?thesis by blast
    next
      case 2
      then have "n = i + Suc j \<and> Suc j < length (x # xs) \<and> (x # xs) ! Suc j = c"
        by simp
      then show ?thesis by blast
    qed
  qed
  with Cons show ?case
    by auto
qed

lemma occurrences_from_lower: "n \<in> set (occurrences_from c s i) \<Longrightarrow> i \<le> n"
  by (auto simp: occurrences_from_set)

lemma occurrences_from_ascending: "sorted_wrt (<) (occurrences_from c s i)"
proof (induction s arbitrary: i)
  case Nil
  then show ?case by simp
next
  case (Cons x xs)
  have "i < n" if "n \<in> set (occurrences_from c xs (Suc i))" for n
    using occurrences_from_lower [OF that] by simp
  with Cons show ?case
    by (simp add: sorted_wrt_append)
qed

lemma occurrences_are_positions:
  "sorted_wrt (<) (occurrences c s) \<and> set (occurrences c s) = {k. k < length s \<and> s ! k = c}"
  by (simp add: occurrences_def occurrences_from_ascending occurrences_from_set)

lemma find_from_occurrences:
  "find_from c s i = (case occurrences_from c s i of [] \<Rightarrow> - 1 | j # _ \<Rightarrow> int j)"
  by (induction s arbitrary: i) simp_all

lemma rfind_from_occurrences:
  "rfind_from c s i found =
     (if occurrences_from c s i = [] then found else int (last (occurrences_from c s i)))"
  by (induction s arbitrary: i found) simp_all

lemma str_find_occurrences:
  "str_find c s = (case occurrences c s of [] \<Rightarrow> - 1 | j # _ \<Rightarrow> int j)"
  by (simp add: str_find_def occurrences_def find_from_occurrences)

lemma str_rfind_occurrences:
  "str_rfind c s = (if occurrences c s = [] then - 1 else int (last (occurrences c s)))"
  by (simp add: str_rfind_def occurrences_def rfind_from_occurrences)

lemma last_occurrence_in_text: "occurrences c s \<noteq> [] \<Longrightarrow> last (occurrences c s) < length s"
proof -
  assume "occurrences c s \<noteq> []"
  then have "last (occurrences c s) \<in> set (occurrences c s)"
    by (rule last_in_set)
  then show ?thesis
    using occurrences_are_positions [of c s] by simp
qed

lemma py_slice_inclusive:
  assumes "i \<le> j" and "j < length s"
  shows "py_slice s (int i) (int j + 1) = inclusive s i j"
proof -
  have "take (Suc j - i) (drop i s) = take (Suc j - i) (drop i (map ((!) s) [0 ..< length s]))"
    by (simp add: map_nth)
  also have "\<dots> = map ((!) s) (take (Suc j - i) (drop i [0 ..< length s]))"
    by (simp add: take_map drop_map)
  also have "\<dots> = map ((!) s) [i ..< Suc j]"
    using assms by (simp add: take_upt)
  finally have "take (Suc j - i) (drop i s) = inclusive s i j"
    by (simp add: inclusive_def)
  moreover have "slice_index (length s) (int i) = i" "slice_index (length s) (int j + 1) = Suc j"
    using assms by (simp_all add: slice_index_def)
  ultimately show ?thesis
    by (simp add: py_slice_def)
qed

section \<open>Fences\<close>

lemma is_space_newline: "is_space (CHR 0x0A)"
  by (simp add: is_space_def)

lemma not_space_backtick: "\<not> is_space (CHR 0x60)"
  by (simp add: is_space_def)

lemma starts_with_Nil: "starts_with [] s"
  by (simp add: starts_with_def)

lemma starts_with_Cons:
  "starts_with (a # p) s = (case s of [] \<Rightarrow> False | b # r \<Rightarrow> a = b \<and> starts_with p r)"
  by (cases s) (auto simp: starts_with_def)

lemma starts_with_length: "starts_with p s \<Longrightarrow> length p \<le> length s"
proof -
  assume "starts_with p s"
  then have "length (take (length p) s) = length p"
    by (simp add: starts_with_def)
  then show ?thesis
    by simp
qed

lemma starts_with_append_space:
  assumes "x \<noteq> []" and "is_space (hd x)" and "\<forall>c \<in> set p. \<not> is_space c"
  shows "starts_with p (r @ x) = starts_with p r"
  using assms(3)
proof (induction p arbitrary: r)
  case Nil
  then show ?case by (simp add: starts_with_Nil)
next
  case (Cons a p)
  show ?case
  proof (cases r)
    case Nil
    with assms(1,2) Cons.prems show ?thesis
      by (cases x) (auto simp: starts_with_Cons)
  next
    case (Cons b r')
    with Cons.IH [of r'] Cons.prems show ?thesis
      by (simp add: starts_with_Cons)
  qed
qed

lemma open_fence_blank_tail:
  "\<forall>c \<in> set w. is_space c \<Longrightarrow> re_sub_open_fence b (w @ ''\<newline>```'') = w @ ''\<newline>''"
proof (induction w arbitrary: b)
  case Nil
  show ?case
    by (simp add: starts_with_Cons starts_with_Nil)
next
  case (Cons c w)
  then have "c \<noteq> CHR 0x60"
    using not_space_backtick by auto
  with Cons show ?case
    by (simp add: starts_with_Cons)
qed

lemma open_fence_match:
  assumes "bol" and "starts_with ''```'' s"
  shows "re_sub_open_fence bol s =
     re_sub_open_fence
       (takeWhile is_space (if starts_with ''json'' (drop 3 s) then drop 4 (drop 3 s) else drop 3 s) \<noteq> [] \<and>
        last (takeWhile is_space (if starts_with ''json'' (drop 3 s) then drop 4 (drop 3 s) else drop 3 s)) =
          CHR 0x0A)
       (dropWhile is_space (if starts_with ''json'' (drop 3 s) then drop 4 (drop 3 s) else drop 3 s))"
proof (cases s)
  case Nil
  with assms(2) show ?thesis
    by (simp add: starts_with_def)
next
  case (Cons c cs)
  with assms show ?thesis
    by (simp add: Let_def)
qed

lemma open_fence_wrapped_tail:
  assumes "\<forall>c \<in> set w. is_space c"
  shows "\<exists>z. (\<forall>c \<in> set z. is_space c) \<and>
             re_sub_open_fence b (v @ w @ ''\<newline>```'') = re_sub_open_fence b v @ z"
proof (induction b v rule: re_sub_open_fence.induct)
  case (1 bol)
  have "re_sub_open_fence bol (w @ ''\<newline>```'') = w @ ''\<newline>''"
    using assms by (rule open_fence_blank_tail)
  moreover have "\<forall>c \<in> set (w @ ''\<newline>''). is_space c"
    using assms is_space_newline by simp
  ultimately show ?case
    by (intro exI [of _ "w @ ''\<newline>''"]) simp
next
  case (2 bol c cs)
  let ?x = "w @ ''\<newline>```''"
  have x: "?x \<noteq> []" "is_space (hd ?x)"
    using assms is_space_newline by (cases w; simp)+
  have ticks: "starts_with ''```'' ((c # cs) @ ?x) = starts_with ''```'' (c # cs)"
    using x by (rule starts_with_append_space) (simp add: is_space_def)
  show ?case
  proof (cases "bol \<and> starts_with ''```'' (c # cs)")
    case False
    then obtain z where z: "\<forall>c \<in> set z. is_space c"
      "re_sub_open_fence (c = CHR 0x0A) (cs @ ?x) = re_sub_open_fence (c = CHR 0x0A) cs @ z"
      using "2.IH"(2) by blast
    from False ticks have "re_sub_open_fence bol ((c # cs) @ ?x) =
        c # re_sub_open_fence (c = CHR 0x0A) (cs @ ?x)"
      by auto
    moreover from False have "re_sub_open_fence bol (c # cs) = c # re_sub_open_fence (c = CHR 0x0A) cs"
      by auto
    ultimately show ?thesis
      using z by auto
  next
    case True
    define after_ticks where "after_ticks = drop 3 (c # cs)"
    define after_tag where
      "after_tag = (if starts_with ''json'' after_ticks then drop 4 after_ticks else after_ticks)"
    define ws where "ws = takeWhile is_space after_tag"
    note IH = "2.IH"(1) [OF True after_ticks_def after_tag_def ws_def]
    have len: "3 \<le> length (c # cs)"
      using True starts_with_length [of "''```''" "c # cs"] by simp
    have tag: "starts_with ''json'' (after_ticks @ ?x) = starts_with ''json'' after_ticks"
      using x by (rule starts_with_append_space) (simp add: is_space_def)
    have len_tag: "4 \<le> length after_ticks" if "starts_with ''json'' after_ticks"
      using that starts_with_length [of "''json''" after_ticks] by simp
    have plain: "re_sub_open_fence bol (c # cs) =
        re_sub_open_fence (ws \<noteq> [] \<and> last ws = CHR 0x0A) (dropWhile is_space after_tag)"
      unfolding ws_def after_tag_def after_ticks_def
      using True by (intro open_fence_match) simp_all
    have dropped: "drop 3 ((c # cs) @ ?x) = after_ticks @ ?x"
      using len unfolding after_ticks_def by (simp only: drop_append) simp
    have tagged: "(if starts_with ''json'' (after_ticks @ ?x) then drop 4 (after_ticks @ ?x)
                    else after_ticks @ ?x) = after_tag @ ?x"
      using len_tag unfolding tag after_tag_def by simp
    have "re_sub_open_fence bol ((c # cs) @ ?x) =
        re_sub_open_fence
          (takeWhile is_space (if starts_with ''json'' (drop 3 ((c # cs) @ ?x))
             then drop 4 (drop 3 ((c # cs) @ ?x)) else drop 3 ((c # cs) @ ?x)) \<noteq> [] \<and>
           last (takeWhile is_space (if starts_with ''json'' (drop 3 ((c # cs) @ ?x))
             then drop 4 (drop 3 ((c # cs) @ ?x)) else drop 3 ((c # cs) @ ?x))) = CHR 0x0A)
          (dropWhile is_space (if starts_with ''json'' (drop 3 ((c # cs) @ ?x))
             then drop 4 (drop 3 ((c # cs) @ ?x)) else drop 3 ((c # cs) @ ?x)))"
      using True ticks by (intro open_fence_match) simp_all
    then have wrapped: "re_sub_open_fence bol ((c # cs) @ ?x) =
        re_sub_open_fence (takeWhile is_space (after_tag @ ?x) \<noteq> [] \<and>
                           last (takeWhile is_space (after_tag @ ?x)) = CHR 0x0A)
          (dropWhile is_space (after_tag @ ?x))"
      unfolding dropped tagged .
    show ?thesis
    proof (cases "\<forall>c \<in> set after_tag. is_space c")
      case all: True
      then have blank: "dropWhile is_space after_tag = []"
        by simp
      have "re_sub_open_fence bol (c # cs) = []"
        unfolding plain blank by simp
      moreover have "takeWhile is_space (after_tag @ ?x) = after_tag @ w @ ''\<newline>''"
        using all assms is_space_newline not_space_backtick by (simp add: takeWhile_append2)
      moreover have "dropWhile is_space (after_tag @ ?x) = ''```''"
        using all assms is_space_newline not_space_backtick by (simp add: dropWhile_append2)
      moreover have "re_sub_open_fence True ''```'' = []"
        by (simp add: starts_with_Cons starts_with_Nil)
      ultimately have "re_sub_open_fence bol ((c # cs) @ ?x) = re_sub_open_fence bol (c # cs) @ []"
        unfolding wrapped by simp
      then show ?thesis
        by (intro exI [of _ "[]"]) simp
    next
      case False
      then obtain y where y: "y \<in> set after_tag" "\<not> is_space y"
        by blast
      then have "takeWhile is_space (after_tag @ ?x) = ws"
        and "dropWhile is_space (after_tag @ ?x) = dropWhile is_space after_tag @ ?x"
        unfolding ws_def by (simp_all add: takeWhile_append1 dropWhile_append1)
      then have "re_sub_open_fence bol ((c # cs) @ ?x) =
          re_sub_open_fence (ws \<noteq> [] \<and> last ws = CHR 0x0A) (dropWhile is_space after_tag @ ?x)"
        unfolding wrapped by simp
      with IH plain show ?thesis
        by simp
    qed
  qed
qed

lemma strip_append_blank:
  assumes "\<forall>c \<in> set z. is_space c"
  shows "strip (s @ z) = strip s"
proof (cases "\<forall>c \<in> set s. is_space c")
  case True
  with assms have both: "dropWhile is_space (s @ z) = []"
    by simp
  from True have one: "dropWhile is_space s = []"
    by simp
  show ?thesis
    unfolding strip_def both one ..
next
  case False
  then obtain y where "y \<in> set s" "\<not> is_space y"
    by blast
  then have "dropWhile is_space (s @ z) = dropWhile is_space s @ z"
    by (simp add: dropWhile_append1)
  moreover have "dropWhile is_space (rev z @ r) = dropWhile is_space r" for r
  proof (rule dropWhile_append2)
    fix c assume "c \<in> set (rev z)"
    with assms show "is_space c"
      by simp
  qed
  ultimately show ?thesis
    by (simp add: strip_def)
qed

lemma strip_unchanged:
  assumes "s \<noteq> []" and "\<not> is_space (hd s)" and "\<not> is_space (last s)"
  shows "strip s = s"
proof -
  have "dropWhile is_space s = s"
    using assms(1,2) by (cases s) simp_all
  moreover have "dropWhile is_space (rev s) = rev s"
    using assms(1,3) by (cases "rev s") (simp_all add: last_rev [symmetric] hd_rev)
  ultimately show ?thesis
    by (simp add: strip_def)
qed

lemma open_fence_flag:
  "\<not> starts_with ''```'' s \<Longrightarrow> re_sub_open_fence b s = re_sub_open_fence True s"
  by (cases s) simp_all

lemma starts_with_append: "starts_with p v \<Longrightarrow> starts_with p (v @ w)"
  using starts_with_length [of p v] by (simp add: starts_with_def)

lemma fence_stripped_wrap:
  assumes "\<not> fence_after_indent t"
  shows "fence_stripped (fence_wrap t) = fence_stripped t"
proof -
  let ?A = "CHR 0x0A # t @ ''\<newline>```''"
  have "strip (fence_wrap t) = fence_wrap t"
    by (rule strip_unchanged) (simp_all add: fence_wrap_def not_space_backtick)
  moreover have "re_sub_open_fence True (fence_wrap t) =
      re_sub_open_fence (takeWhile is_space ?A \<noteq> [] \<and> last (takeWhile is_space ?A) = CHR 0x0A)
        (dropWhile is_space ?A)"
    by (subst open_fence_match) (simp_all add: fence_wrap_def starts_with_Cons starts_with_Nil)
  ultimately have wrapped: "fence_stripped (fence_wrap t) =
      re_sub_close_fence (strip (re_sub_open_fence
        (takeWhile is_space ?A \<noteq> [] \<and> last (takeWhile is_space ?A) = CHR 0x0A)
        (dropWhile is_space ?A)))"
    by (simp add: fence_stripped_def)
  show ?thesis
  proof (cases "\<forall>c \<in> set t. is_space c")
    case True
    then have "dropWhile is_space ?A = ''```''" and "takeWhile is_space ?A = CHR 0x0A # t @ ''\<newline>''"
      using is_space_newline not_space_backtick
      by (simp_all add: dropWhile_append2 takeWhile_append2)
    moreover have "re_sub_open_fence True ''```'' = []"
      by (simp add: starts_with_Cons starts_with_Nil)
    ultimately have "fence_stripped (fence_wrap t) = re_sub_close_fence (strip [])"
      unfolding wrapped by simp
    moreover from True have blank: "dropWhile is_space t = []"
      by simp
    have "strip t = []"
      by (simp only: strip_def blank rev.simps dropWhile.simps)
    then have "fence_stripped t = re_sub_close_fence (strip [])"
      by (simp add: fence_stripped_def)
    ultimately show ?thesis
      by simp
  next
    case False
    define indent where "indent = takeWhile is_space t"
    define u where "u = dropWhile is_space t"
    define v where "v = rev (dropWhile is_space (rev u))"
    define w where "w = rev (takeWhile is_space (rev u))"
    from False obtain y where y: "y \<in> set t" "\<not> is_space y"
      by blast
    have uvw: "u = v @ w"
    proof -
      have "v @ w = rev (takeWhile is_space (rev u) @ dropWhile is_space (rev u))"
        unfolding v_def w_def by (simp only: rev_append)
      also have "\<dots> = rev (rev u)"
        by (simp only: takeWhile_dropWhile_id)
      finally show ?thesis
        by simp
    qed
    have blank: "\<forall>c \<in> set w. is_space c"
      unfolding w_def by (auto dest: set_takeWhileD)
    have stripped: "strip t = v"
      by (simp add: strip_def v_def u_def)
    have taken: "takeWhile is_space ?A = CHR 0x0A # indent"
      using y is_space_newline unfolding indent_def by (simp add: takeWhile_append1)
    have "dropWhile is_space ?A = u @ ''\<newline>```''"
      using y is_space_newline unfolding u_def by (simp add: dropWhile_append1)
    then have rest: "dropWhile is_space ?A = v @ w @ ''\<newline>```''"
      by (simp add: uvw)
    let ?b = "last (CHR 0x0A # indent) = CHR 0x0A"
    obtain z where z: "\<forall>c \<in> set z. is_space c"
      "re_sub_open_fence ?b (v @ w @ ''\<newline>```'') = re_sub_open_fence ?b v @ z"
      using open_fence_wrapped_tail [OF blank] by blast
    have "re_sub_open_fence ?b v = re_sub_open_fence True v"
    proof (cases ?b)
      case True
      then show ?thesis by simp
    next
      case False
      then have "indent \<noteq> []" "last indent \<noteq> CHR 0x0A"
        by (auto split: if_splits)
      with assms have "\<not> starts_with ''```'' u"
        by (simp add: fence_after_indent_def Let_def indent_def u_def)
      then have "\<not> starts_with ''```'' v"
        using starts_with_append [of "''```''" v w] uvw by blast
      then show ?thesis
        by (rule open_fence_flag)
    qed
    with z have "fence_stripped (fence_wrap t) =
        re_sub_close_fence (strip (re_sub_open_fence True v @ z))"
      unfolding wrapped taken rest by simp
    also have "\<dots> = re_sub_close_fence (strip (re_sub_open_fence True v))"
      using z(1) by (simp add: strip_append_blank)
    also have "\<dots> = fence_stripped t"
      by (simp add: fence_stripped_def stripped)
    finally show ?thesis .
  qed
qed

text \<open>
  C8, as amended. For every text that does not begin with whitespace ending in a
  character other than a newline and followed directly by a fence marker, output
  recovery applied to the text wrapped in a \<^verbatim>\<open>json\<close> fence (the opening and the closing
  marker on lines of their own) works on the same stripped text as, and gives the same
  outcome as, output recovery applied to the text itself.
\<close>

theorem fenced_text_recovers_the_same:
  assumes "\<not> fence_after_indent t"
  shows "fence_stripped (fence_wrap t) = fence_stripped t \<and>
         extract_json loads (fence_wrap t) = extract_json loads t"
  using fence_stripped_wrap [OF assms] by (simp add: extract_json_def)

theorem fenced_text_recovers_the_same_witness:
  \<open>\<not> fence_after_indent ''{"a": 1}'' \<and>
   fence_wrap ''{"a": 1}'' = ''```json\<newline>{"a": 1}\<newline>```'' \<and>
   extract_json (table_loads [(''{"a": 1}'', JObj [(''a'', JInt 1)])]) (fence_wrap ''{"a": 1}'') =
     Inr (JObj [(''a'', JInt 1)]) \<and>
   extract_json (table_loads [(''{"a": 1}'', JObj [(''a'', JInt 1)])]) ''{"a": 1}'' =
     Inr (JObj [(''a'', JInt 1)])\<close>
proof -
  have ok: \<open>\<not> fence_after_indent ''{"a": 1}''\<close>
    by code_simp
  have plain: \<open>extract_json (table_loads [(''{"a": 1}'', JObj [(''a'', JInt 1)])]) ''{"a": 1}'' =
     Inr (JObj [(''a'', JInt 1)])\<close>
    by code_simp
  have wrap: \<open>fence_wrap ''{"a": 1}'' = ''```json\<newline>{"a": 1}\<newline>```''\<close>
    by (simp add: fence_wrap_def)
  show ?thesis
    using ok plain wrap
      fenced_text_recovers_the_same [OF ok, of \<open>table_loads [(''{"a": 1}'', JObj [(''a'', JInt 1)])]\<close>]
    by simp
qed

text \<open>
  The claim as first stated fails: for the text of a space, a fence marker and the JSON
  value 1, the marker is at the start of a line in the text itself and is stripped, but
  inside the fence it follows the space, stays, and nothing is recovered.
\<close>

theorem indented_fence_recovers_differently:
  "extract_json (table_loads [(''1'', JInt 1)]) '' ```1'' = Inr (JInt 1) \<and>
   extract_json (table_loads [(''1'', JInt 1)]) (fence_wrap '' ```1'') = Inr JNull \<and>
   fence_stripped '' ```1'' = ''1'' \<and> fence_stripped (fence_wrap '' ```1'') = ''```1''"
  by code_simp

section \<open>Failures and the shape of the response\<close>

lemma five_field_sanitize_result: "five_field_record (sanitize_result raw)"
  by (simp add: sanitize_result_def five_field_record_def dict_get_def is_text_def)

lemma conformant_sanitize_result:
  assumes "dated_by_text (JObj raw)"
  shows "conformant_result (sanitize_result raw)"
proof -
  have "dict_get
      [(''title'', t), (''url'', u), (''source'', s), (''published_at'', p), (''snippet'', n)]
      ''published_at'' = p" for t u s p n
    by (simp add: dict_get_def)
  then have "conformant_result (sanitize_result raw) =
      is_text_or_null
        (case first_truthy raw [''published_at'', ''publishedAt'', ''date''] of
           None \<Rightarrow> JNull | Some d \<Rightarrow> d)"
    using five_field_sanitize_result [of raw]
    by (simp add: conformant_result_def sanitize_result_def date_field)
  with assms show ?thesis
    by (auto simp: dated_by_text_def is_text_or_null_def is_text_def split: option.splits json.splits)
qed

lemma five_field_sanitize_dicts: "list_all five_field_record (sanitize_dicts rs)"
  by (induction rs rule: sanitize_dicts.induct) (simp_all add: five_field_sanitize_result)

lemma conformant_sanitize_dicts:
  "list_all dated_by_text rs \<Longrightarrow> list_all conformant_result (sanitize_dicts rs)"
  by (induction rs rule: sanitize_dicts.induct) (simp_all add: conformant_sanitize_result)

lemma list_all_take: "list_all P xs \<Longrightarrow> list_all P (take n xs)"
  by (auto simp: list_all_iff dest: in_set_takeD)

lemma build_response_recovered:
  assumes "0 \<le> n"
  shows "build_response q n v =
     (if (\<exists>xs. v = JArr xs) \<or> (\<exists>d. v = JObj d)
      then JObj [(''query'', (case v of JObj d \<Rightarrow> dict_get_default d ''query'' (JStr q) | _ \<Rightarrow> JStr q)),
                 (''results'', JArr (take (nat n) (sanitize_dicts (recovered_results v))))]
      else empty_response q)"
  using assms
  by (cases v)
    (simp_all add: build_response_def py_slice_prefix recovered_results_def dict_get_default_def
      empty_response_def)

lemma two_field_empty_response: "two_field_response (empty_response q)"
  by (simp add: two_field_response_def empty_response_def dict_get_def)

lemma conformant_empty_response: "conformant_response (empty_response q)"
  by (simp add: conformant_response_def empty_response_def dict_get_def is_text_def)

lemma two_field_build_response:
  assumes "0 \<le> n"
  shows "two_field_response (build_response q n v)"
  unfolding build_response_recovered [OF assms]
  using two_field_empty_response [of q] list_all_take [OF five_field_sanitize_dicts]
  by (simp add: two_field_response_def dict_get_def)

lemma conformant_build_response:
  assumes "0 \<le> n" and "typed_as_documented v"
  shows "conformant_response (build_response q n v)"
proof -
  have dates: "list_all conformant_result (take (nat n) (sanitize_dicts (recovered_results v)))"
    using assms(2) by (intro list_all_take conformant_sanitize_dicts) (simp add: typed_as_documented_def)
  have "is_text (case v of JObj d \<Rightarrow> dict_get_default d ''query'' (JStr q) | _ \<Rightarrow> JStr q)"
    using assms(2)
    by (auto simp: typed_as_documented_def dict_get_default_def is_text_def
        split: json.splits option.splits)
  with dates show ?thesis
    unfolding build_response_recovered [OF assms(1)]
    using conformant_empty_response [of q]
    by (simp add: conformant_response_def dict_get_def)
qed

text \<open>
  C2, as amended. \<^verbatim>\<open>brave_search\<close> lets no \<^verbatim>\<open>Exception\<close> escape: when whatever the
  remote invocation and the decoder raise is an \<^verbatim>\<open>Exception\<close> (a transport or provider
  failure is one), the call returns a response with exactly the fields query and
  results, the results being five-field records with texts in title, url, source and
  snippet. An \<^verbatim>\<open>Exception\<close> from the remote invocation or from output recovery, an
  output from which nothing is recovered, and a recovered value that is neither a
  sequence nor a keyed structure all give the original query with no results, which
  conforms to the schema. An exception that is not an \<^verbatim>\<open>Exception\<close> (a cancellation)
  is not caught and leaves the call. For a recovered sequence or keyed structure the
  results are its records, sanitized and cut to the limit; when its own query, if
  present, is a text and its records are dated by texts, the response conforms to the
  schema.
\<close>

theorem brave_search_never_raises:
  "((\<forall>p m servers e. run p m servers = Inl e \<longrightarrow> is_Exception e) \<and>
    (\<forall>text e. loads text = Inl e \<longrightarrow> is_Exception e) \<longrightarrow>
      (\<exists>response. brave_search loads run q mode l = Inr response \<and> two_field_response response)) \<and>
   (\<forall>e. run (prompt q mode (min (max 1 l) MAX_RESULTS)) MODEL MCP_SERVERS = Inl e \<longrightarrow>
      brave_search loads run q mode l = (if is_Exception e then Inr (empty_response q) else Inl e)) \<and>
   (\<forall>out e. run (prompt q mode (min (max 1 l) MAX_RESULTS)) MODEL MCP_SERVERS = Inr out \<and>
      extract_json loads (case out of None \<Rightarrow> [] | Some text \<Rightarrow> text) = Inl e \<longrightarrow>
      brave_search loads run q mode l = (if is_Exception e then Inr (empty_response q) else Inl e)) \<and>
   (\<forall>out. run (prompt q mode (min (max 1 l) MAX_RESULTS)) MODEL MCP_SERVERS = Inr out \<and>
      extract_json loads (case out of None \<Rightarrow> [] | Some text \<Rightarrow> text) = Inr JNull \<longrightarrow>
      brave_search loads run q mode l = Inr (empty_response q)) \<and>
   (\<forall>out v. run (prompt q mode (min (max 1 l) MAX_RESULTS)) MODEL MCP_SERVERS = Inr out \<and>
      extract_json loads (case out of None \<Rightarrow> [] | Some text \<Rightarrow> text) = Inr v \<and>
      (\<forall>xs. v \<noteq> JArr xs) \<and> (\<forall>d. v \<noteq> JObj d) \<longrightarrow>
      brave_search loads run q mode l = Inr (empty_response q)) \<and>
   empty_response q = JObj [(''query'', JStr q), (''results'', JArr [])] \<and>
   conformant_response (empty_response q) \<and>
   (\<forall>out v. run (prompt q mode (min (max 1 l) MAX_RESULTS)) MODEL MCP_SERVERS = Inr out \<and>
      extract_json loads (case out of None \<Rightarrow> [] | Some text \<Rightarrow> text) = Inr v \<and>
      ((\<exists>xs. v = JArr xs) \<or> (\<exists>d. v = JObj d)) \<longrightarrow>
      (\<exists>qv. brave_search loads run q mode l =
         Inr (JObj [(''query'', qv),
                    (''results'', JArr (take (nat (min (max 1 l) MAX_RESULTS))
                                          (sanitize_dicts (recovered_results v))))]))) \<and>
   (\<forall>out v. run (prompt q mode (min (max 1 l) MAX_RESULTS)) MODEL MCP_SERVERS = Inr out \<and>
      extract_json loads (case out of None \<Rightarrow> [] | Some text \<Rightarrow> text) = Inr v \<and>
      typed_as_documented v \<longrightarrow>
      (\<exists>response. brave_search loads run q mode l = Inr response \<and> conformant_response response))"
proof -
  let ?n = "min (max 1 l) MAX_RESULTS"
  let ?p = "prompt q mode ?n"
  have pos: "0 \<le> ?n"
    using clamp_limit_range [of l] by simp
  have run_fails: "brave_search loads run q mode l =
      (if is_Exception e then Inr (empty_response q) else Inl e)"
    if "run ?p MODEL MCP_SERVERS = Inl e" for e
    using that by (rule brave_search_run_raises)
  have recovery_fails: "brave_search loads run q mode l =
      (if is_Exception e then Inr (empty_response q) else Inl e)"
    if "run ?p MODEL MCP_SERVERS = Inr out"
      and "extract_json loads (case out of None \<Rightarrow> [] | Some text \<Rightarrow> text) = Inl e" for out e
    using that by (rule brave_search_extract_raises)
  have recovered: "brave_search loads run q mode l = Inr (build_response q ?n v)"
    if "run ?p MODEL MCP_SERVERS = Inr out"
      and "extract_json loads (case out of None \<Rightarrow> [] | Some text \<Rightarrow> text) = Inr v" for out v
    using that by (rule brave_search_recovered)
  have none: "brave_search loads run q mode l = Inr (empty_response q)"
    if "run ?p MODEL MCP_SERVERS = Inr out"
      and "extract_json loads (case out of None \<Rightarrow> [] | Some text \<Rightarrow> text) = Inr JNull" for out
    using recovered [OF that] by (simp add: build_response_def)
  have wrong_shape: "brave_search loads run q mode l = Inr (empty_response q)"
    if "run ?p MODEL MCP_SERVERS = Inr out"
      and "extract_json loads (case out of None \<Rightarrow> [] | Some text \<Rightarrow> text) = Inr v"
      and "\<forall>xs. v \<noteq> JArr xs" and "\<forall>d. v \<noteq> JObj d" for out v
    using recovered [OF that(1,2)] build_response_other [OF that(3,4)] by simp
  have typed: "\<exists>response. brave_search loads run q mode l = Inr response \<and> conformant_response response"
    if "run ?p MODEL MCP_SERVERS = Inr out"
      and "extract_json loads (case out of None \<Rightarrow> [] | Some text \<Rightarrow> text) = Inr v"
      and "typed_as_documented v" for out v
    using recovered [OF that(1,2)] conformant_build_response [OF pos that(3)] by simp
  have sanitized: "\<exists>qv. brave_search loads run q mode l =
         Inr (JObj [(''query'', qv),
                    (''results'', JArr (take (nat ?n) (sanitize_dicts (recovered_results v))))])"
    if "run ?p MODEL MCP_SERVERS = Inr out"
      and "extract_json loads (case out of None \<Rightarrow> [] | Some text \<Rightarrow> text) = Inr v"
      and "(\<exists>xs. v = JArr xs) \<or> (\<exists>d. v = JObj d)" for out v
    using recovered [OF that(1,2)] that(3) build_response_recovered [OF pos, of q v] by auto
  have returns: "\<exists>response. brave_search loads run q mode l = Inr response \<and> two_field_response response"
    if run_exc: "\<forall>p m servers e. run p m servers = Inl e \<longrightarrow> is_Exception e"
      and loads_exc: "\<forall>text e. loads text = Inl e \<longrightarrow> is_Exception e"
  proof (cases "run ?p MODEL MCP_SERVERS")
    case (Inl e)
    with run_exc have "is_Exception e"
      by blast
    with run_fails [OF Inl] show ?thesis
      using two_field_empty_response by simp
  next
    case (Inr out)
    show ?thesis
    proof (cases "extract_json loads (case out of None \<Rightarrow> [] | Some text \<Rightarrow> text)")
      case (Inl e)
      then obtain s where "loads s = Inl e"
        using extract_json_raises by blast
      with loads_exc have "is_Exception e"
        by blast
      with recovery_fails [OF Inr Inl] show ?thesis
        using two_field_empty_response by simp
    next
      case inner: (Inr v)
      from recovered [OF Inr inner] show ?thesis
        using two_field_build_response [OF pos] by simp
    qed
  qed
  have "empty_response q = JObj [(''query'', JStr q), (''results'', JArr [])]"
    by (simp add: empty_response_def)
  then show ?thesis
    using returns run_fails recovery_fails none wrong_shape typed sanitized
      conformant_empty_response [of q]
    by blast
qed

theorem brave_search_never_raises_witness:
  "brave_search (table_loads []) (run_raising (OtherException ''connection reset'')) ''gold'' ''news'' 8 =
     Inr (JObj [(''query'', JStr ''gold''), (''results'', JArr [])]) \<and>
   brave_search (table_loads []) (run_returning (Some ''not json at all'')) ''gold'' ''web'' 8 =
     Inr (JObj [(''query'', JStr ''gold''), (''results'', JArr [])]) \<and>
   conformant_response (JObj [(''query'', JStr ''gold''), (''results'', JArr [])]) \<and>
   (\<exists>response. brave_search (table_loads []) (run_returning (Some ''not json at all'')) ''gold'' ''web'' 8 =
        Inr response \<and> two_field_response response)"
proof -
  have loads_ok: "\<forall>text e. table_loads [] text = Inl e \<longrightarrow> is_Exception e"
    by (auto simp: table_loads_def)
  have returning_ok: "\<forall>p m servers e. run_returning (Some ''not json at all'') p m servers = Inl e \<longrightarrow>
      is_Exception e"
    by (simp add: run_returning_def)
  have raised: "run_raising (OtherException ''connection reset'')
      (prompt ''gold'' ''news'' (min (max 1 8) MAX_RESULTS)) MODEL MCP_SERVERS =
      Inl (OtherException ''connection reset'')"
    by (simp add: run_raising_def)
  have returned: "run_returning (Some ''not json at all'')
      (prompt ''gold'' ''web'' (min (max 1 8) MAX_RESULTS)) MODEL MCP_SERVERS =
      Inr (Some ''not json at all'')"
    by (simp add: run_returning_def)
  have none: "extract_json (table_loads []) (case Some ''not json at all'' of None \<Rightarrow> [] | Some text \<Rightarrow> text) =
      Inr JNull"
    by code_simp
  note failing = brave_search_never_raises
    [of "run_raising (OtherException ''connection reset'')" "table_loads []" "''gold''" "''news''" 8]
  note silent = brave_search_never_raises
    [of "run_returning (Some ''not json at all'')" "table_loads []" "''gold''" "''web''" 8]
  have "brave_search (table_loads []) (run_raising (OtherException ''connection reset'')) ''gold'' ''news'' 8 =
      (if is_Exception (OtherException ''connection reset'') then Inr (empty_response ''gold'')
       else Inl (OtherException ''connection reset''))"
    using failing raised by blast
  then have w1: "brave_search (table_loads []) (run_raising (OtherException ''connection reset''))
      ''gold'' ''news'' 8 = Inr (JObj [(''query'', JStr ''gold''), (''results'', JArr [])])"
    by (simp add: empty_response_def)
  have "brave_search (table_loads []) (run_returning (Some ''not json at all'')) ''gold'' ''web'' 8 =
      Inr (empty_response ''gold'')"
    using silent returned none by blast
  then have w2: "brave_search (table_loads []) (run_returning (Some ''not json at all'')) ''gold'' ''web'' 8 =
      Inr (JObj [(''query'', JStr ''gold''), (''results'', JArr [])])"
    by (simp add: empty_response_def)
  have "conformant_response (empty_response ''gold'')"
    using silent by blast
  then have w3: "conformant_response (JObj [(''query'', JStr ''gold''), (''results'', JArr [])])"
    by (simp add: empty_response_def)
  have w4: "\<exists>response. brave_search (table_loads []) (run_returning (Some ''not json at all''))
      ''gold'' ''web'' 8 = Inr response \<and> two_field_response response"
    using silent returning_ok loads_ok by blast
  show ?thesis
    using w1 w2 w3 w4 by blast
qed

text \<open>
  The claim as first stated fails: a cancellation raised while the remote invocation is
  awaited is not an \<^verbatim>\<open>Exception\<close> and leaves the call; and for the malformed output
  \<^verbatim>\<open>{"query": 0, "results": 5}\<close> the response carries the number as its query.
\<close>

theorem cancellation_leaves_brave_search:
  \<open>brave_search (table_loads []) (run_raising (BaseExceptionOnly ''CancelledError'')) ''gold'' ''web'' 8 =
     Inl (BaseExceptionOnly ''CancelledError'') \<and>
   brave_search
     (table_loads [(''{"query": 0, "results": 5}'', JObj [(''query'', JInt 0), (''results'', JInt 5)])])
     (run_returning (Some ''{"query": 0, "results": 5}'')) ''gold'' ''web'' 8 =
     Inr (JObj [(''query'', JInt 0), (''results'', JArr [])]) \<and>
   \<not> conformant_response (JObj [(''query'', JInt 0), (''results'', JArr [])])\<close>
  by code_simp

section \<open>Recovery by brackets\<close>

lemma extract_brackets_pair:
  "extract_brackets loads s ((opening, closing) # pairs) =
     (case bracket_span s opening closing of
        None \<Rightarrow> extract_brackets loads s pairs
      | Some part \<Rightarrow>
          (case loads part of
             Inr v \<Rightarrow> Inr v
           | Inl e \<Rightarrow> if e = JSONDecodeError then extract_brackets loads s pairs else Inl e))"
proof (cases "occurrences opening s")
  case Nil
  then show ?thesis
    by (simp add: str_find_occurrences bracket_span_def)
next
  case (Cons i rest)
  show ?thesis
  proof (cases "occurrences closing s \<noteq> [] \<and> i < last (occurrences closing s)")
    case True
    then have "py_slice s (int i) (int (last (occurrences closing s)) + 1) =
        inclusive s i (last (occurrences closing s))"
      using last_occurrence_in_text [of closing s] by (intro py_slice_inclusive) simp_all
    with True Cons show ?thesis
      by (cases "loads (inclusive s i (last (occurrences closing s)))")
        (auto simp: str_find_occurrences str_rfind_occurrences bracket_span_def Let_def
          elim: is_JSONDecodeError.elims)
  next
    case False
    with Cons show ?thesis
      by (auto simp: str_find_occurrences str_rfind_occurrences bracket_span_def Let_def)
  qed
qed

lemma extract_json_direct_fails:
  assumes "loads (fence_stripped text) = Inl JSONDecodeError"
  shows "extract_json loads text =
     (case bracket_span (fence_stripped text) (CHR ''{'') (CHR ''}'') of
        Some part \<Rightarrow>
          (case loads part of
             Inr v \<Rightarrow> Inr v
           | Inl e \<Rightarrow>
               if e = JSONDecodeError
               then (case bracket_span (fence_stripped text) (CHR ''['') (CHR '']'') of
                       Some part' \<Rightarrow>
                         (case loads part' of
                            Inr v \<Rightarrow> Inr v
                          | Inl e' \<Rightarrow> if e' = JSONDecodeError then Inr JNull else Inl e')
                     | None \<Rightarrow> Inr JNull)
               else Inl e)
      | None \<Rightarrow>
          (case bracket_span (fence_stripped text) (CHR ''['') (CHR '']'') of
             Some part' \<Rightarrow>
               (case loads part' of
                  Inr v \<Rightarrow> Inr v
                | Inl e' \<Rightarrow> if e' = JSONDecodeError then Inr JNull else Inl e')
           | None \<Rightarrow> Inr JNull))"
proof -
  have "extract_brackets loads (fence_stripped text) bracket_pairs =
     (case bracket_span (fence_stripped text) (CHR ''{'') (CHR ''}'') of
        Some part \<Rightarrow>
          (case loads part of
             Inr v \<Rightarrow> Inr v
           | Inl e \<Rightarrow>
               if e = JSONDecodeError
               then (case bracket_span (fence_stripped text) (CHR ''['') (CHR '']'') of
                       Some part' \<Rightarrow>
                         (case loads part' of
                            Inr v \<Rightarrow> Inr v
                          | Inl e' \<Rightarrow> if e' = JSONDecodeError then Inr JNull else Inl e')
                     | None \<Rightarrow> Inr JNull)
               else Inl e)
      | None \<Rightarrow>
          (case bracket_span (fence_stripped text) (CHR ''['') (CHR '']'') of
             Some part' \<Rightarrow>
               (case loads part' of
                  Inr v \<Rightarrow> Inr v
                | Inl e' \<Rightarrow> if e' = JSONDecodeError then Inr JNull else Inl e')
           | None \<Rightarrow> Inr JNull))"
    by (simp only: bracket_pairs_def extract_brackets_pair extract_brackets.simps(1))
  with assms show ?thesis
    by (simp add: extract_json_def Let_def)
qed

lemma recovery_returns:
  assumes "loads (fence_stripped text) = Inl JSONDecodeError"
    and "\<forall>part e. attempted loads (fence_stripped text) part \<and> loads part = Inl e \<longrightarrow> e = JSONDecodeError"
  shows "extract_json loads text = Inr (recover_by_brackets loads (fence_stripped text))"
  using assms(2) unfolding extract_json_direct_fails [of loads "text", OF assms(1)]
  by (auto simp: recover_by_brackets_def parse_span_def attempted_def split: option.splits sum.splits)

lemma recovery_raises:
  assumes "loads (fence_stripped text) = Inl JSONDecodeError"
    and "attempted loads (fence_stripped text) part" and "loads part = Inl e" and "e \<noteq> JSONDecodeError"
  shows "\<exists>e'. e' \<noteq> JSONDecodeError \<and> extract_json loads text = Inl e'"
  using assms(2,3,4) unfolding extract_json_direct_fails [of loads "text", OF assms(1)]
  by (auto simp: parse_span_def attempted_def split: option.splits sum.splits)

lemma recovery_none:
  assumes "\<forall>part. attempted loads s part \<longrightarrow> loads part = Inl JSONDecodeError"
  shows "recover_by_brackets loads s = JNull"
  using assms
  by (auto simp: recover_by_brackets_def parse_span_def attempted_def split: option.splits sum.splits)

text \<open>
  C5, as amended. When the direct parse of the text (after the fences are stripped)
  fails with a JSON decoding error, output recovery tries the bracket pairs in the order
  braces, square brackets: for a pair it takes the first occurrence of the opening
  character and the last occurrence of the closing one, and parses the part between
  them, both included, only when the closing position is after the opening position;
  the first part that parses is the answer. Provided no attempt raises anything but a
  JSON decoding error, the function returns: the answer of the first part that parses,
  and none when every attempt fails, as for the empty text. An attempt that raises
  another exception is not caught: the function raises.
\<close>

theorem extract_json_bracket_fallback:
  "(loads (fence_stripped text) = Inl JSONDecodeError \<longrightarrow>
      ((\<forall>part e. attempted loads (fence_stripped text) part \<and> loads part = Inl e \<longrightarrow> e = JSONDecodeError) \<longrightarrow>
         extract_json loads text = Inr (recover_by_brackets loads (fence_stripped text))) \<and>
      ((\<forall>part. attempted loads (fence_stripped text) part \<longrightarrow> loads part = Inl JSONDecodeError) \<longrightarrow>
         extract_json loads text = Inr JNull) \<and>
      ((\<exists>part e. attempted loads (fence_stripped text) part \<and> loads part = Inl e \<and> e \<noteq> JSONDecodeError) \<longrightarrow>
         (\<exists>e. e \<noteq> JSONDecodeError \<and> extract_json loads text = Inl e))) \<and>
   (loads [] = Inl JSONDecodeError \<longrightarrow> extract_json loads [] = Inr JNull) \<and>
   sorted_wrt (<) (occurrences c s) \<and> set (occurrences c s) = {k. k < length s \<and> s ! k = c}"
proof -
  let ?t = "fence_stripped text"
  have returns: "extract_json loads text = Inr (recover_by_brackets loads ?t)"
    if "loads ?t = Inl JSONDecodeError"
      and "\<forall>part e. attempted loads ?t part \<and> loads part = Inl e \<longrightarrow> e = JSONDecodeError"
    using that by (rule recovery_returns)
  have none: "extract_json loads text = Inr JNull"
    if direct: "loads ?t = Inl JSONDecodeError"
      and fail: "\<forall>part. attempted loads ?t part \<longrightarrow> loads part = Inl JSONDecodeError"
  proof -
    from fail have "\<forall>part e. attempted loads ?t part \<and> loads part = Inl e \<longrightarrow> e = JSONDecodeError"
      by auto
    with direct have "extract_json loads text = Inr (recover_by_brackets loads ?t)"
      by (rule recovery_returns)
    with fail show ?thesis
      by (simp add: recovery_none)
  qed
  have raises: "\<exists>e. e \<noteq> JSONDecodeError \<and> extract_json loads text = Inl e"
    if "loads ?t = Inl JSONDecodeError"
      and "\<exists>part e. attempted loads ?t part \<and> loads part = Inl e \<and> e \<noteq> JSONDecodeError"
    using that recovery_raises [of loads "text"] by blast
  have stripped_empty: "fence_stripped [] = []"
    by (simp add: fence_stripped_def strip_def)
  have no_span: "bracket_span [] a b = None" for a b
    by (simp add: bracket_span_def occurrences_def)
  have empty: "extract_json loads [] = Inr JNull" if "loads [] = Inl JSONDecodeError"
    using that
    by (simp add: extract_json_direct_fails stripped_empty no_span)
  show ?thesis
    using returns none raises empty occurrences_are_positions [of c s] by blast
qed

theorem extract_json_bracket_fallback_witness:
  \<open>extract_json (table_loads [(''{"a": 1}'', JObj [(''a'', JInt 1)])]) ''Here: {"a": 1} done'' =
     Inr (JObj [(''a'', JInt 1)]) \<and>
   extract_json (table_loads [(''[1, 2]'', JArr [JInt 1, JInt 2])]) ''x [1, 2] } {'' =
     Inr (JArr [JInt 1, JInt 2]) \<and>
   extract_json (table_loads [(''[3]'', JArr [JInt 3])]) ''{oops} [3]'' = Inr (JArr [JInt 3]) \<and>
   extract_json (table_loads []) ''} not json {'' = Inr JNull \<and>
   extract_json (table_loads []) [] = Inr JNull\<close>
proof -
  have decode_only: "\<forall>part e. attempted (table_loads table) s part \<and> table_loads table part = Inl e \<longrightarrow>
      e = JSONDecodeError" for table s
    by (auto simp: table_loads_def split: option.splits)
  have recover: "extract_json (table_loads table) t = Inr r"
    if "table_loads table (fence_stripped t) = Inl JSONDecodeError"
      and "recover_by_brackets (table_loads table) (fence_stripped t) = r" for table t r
    using extract_json_bracket_fallback [of "table_loads table" t] that decode_only [of table "fence_stripped t"]
    by blast
  have w1: \<open>extract_json (table_loads [(''{"a": 1}'', JObj [(''a'', JInt 1)])]) ''Here: {"a": 1} done'' =
      Inr (JObj [(''a'', JInt 1)])\<close>
    by (rule recover) code_simp+
  have w2: "extract_json (table_loads [(''[1, 2]'', JArr [JInt 1, JInt 2])]) ''x [1, 2] } {'' =
      Inr (JArr [JInt 1, JInt 2])"
    by (rule recover) code_simp+
  have w3: "extract_json (table_loads [(''[3]'', JArr [JInt 3])]) ''{oops} [3]'' = Inr (JArr [JInt 3])"
    by (rule recover) code_simp+
  have w4: "extract_json (table_loads []) ''} not json {'' = Inr JNull"
    by (rule recover) code_simp+
  have w5: "extract_json (table_loads []) [] = Inr JNull"
    by (rule recover) code_simp+
  show ?thesis
    using w1 w2 w3 w4 w5 by simp
qed

lemma starts_with_ticks_has_tick: "starts_with ''```'' s \<Longrightarrow> CHR 0x60 \<in> set s"
  by (cases s) (auto simp: starts_with_Cons)

lemma open_fence_no_tick: "CHR 0x60 \<notin> set s \<Longrightarrow> re_sub_open_fence b s = s"
proof (induction s arbitrary: b)
  case Nil
  show ?case by simp
next
  case (Cons c cs)
  then have "\<not> starts_with ''```'' (c # cs)"
    using starts_with_ticks_has_tick by blast
  with Cons show ?case
    by simp
qed

lemma close_fence_no_tick: "CHR 0x60 \<notin> set s \<Longrightarrow> re_sub_close_fence s = s"
proof (induction s)
  case Nil
  show ?case by simp
next
  case (Cons c cs)
  have "\<not> starts_with ''```'' (dropWhile is_space (c # cs))"
  proof
    assume "starts_with ''```'' (dropWhile is_space (c # cs))"
    then have "CHR 0x60 \<in> set (dropWhile is_space (c # cs))"
      by (rule starts_with_ticks_has_tick)
    then have "CHR 0x60 \<in> set (c # cs)"
      by (rule set_dropWhileD)
    with Cons.prems show False
      by simp
  qed
  with Cons show ?case
    by (simp add: Let_def)
qed

lemma fence_stripped_plain:
  assumes "CHR 0x60 \<notin> set s" and "s \<noteq> []" and "\<not> is_space (hd s)" and "\<not> is_space (last s)"
  shows "fence_stripped s = s"
  using assms by (simp add: fence_stripped_def strip_unchanged open_fence_no_tick close_fence_no_tick)

lemma find_from_absent: "c \<notin> set s \<Longrightarrow> find_from c s i = - 1"
  by (induction s arbitrary: i) auto

lemma rfind_from_last: "rfind_from c (s @ [c]) i found = int (i + length s)"
  by (induction s arbitrary: i found) simp_all

text \<open>
  The claim as first stated fails: for the output that names a very long integer the
  direct parse fails with a JSON decoding error, the span of the square brackets is
  tried, \<^verbatim>\<open>json.loads\<close> raises \<^verbatim>\<open>ValueError\<close> on it, and output recovery raises instead
  of returning none.
\<close>

theorem long_integer_span_raises:
  "digit_limit_loads (fence_stripped long_integer_output) = Inl JSONDecodeError \<and>
   extract_json digit_limit_loads long_integer_output = Inl (OtherException ''ValueError'')"
proof -
  define digits where "digits = replicate 5000 (CHR ''1'')"
  have len: "length digits = 5000"
    by (simp add: digits_def)
  have chars: "set digits \<subseteq> {CHR ''1''}"
    by (simp add: digits_def)
  have array: "long_integer_array = CHR ''['' # digits @ '']''"
    by (simp add: long_integer_array_def digits_def)
  have whole: "long_integer_output = ''Result: ['' @ digits @ '']''"
    by (simp add: long_integer_output_def array)
  have plain: "fence_stripped long_integer_output = long_integer_output"
    using chars by (intro fence_stripped_plain) (auto simp: whole is_space_def)
  have direct: "digit_limit_loads long_integer_output = Inl JSONDecodeError"
    by (simp add: digit_limit_loads_def whole array)
  have no_brace: "str_find (CHR ''{'') long_integer_output = - 1"
    unfolding str_find_def using chars by (intro find_from_absent) (auto simp: whole)
  have first: "str_find (CHR ''['') long_integer_output = 8"
    by (simp add: str_find_def whole)
  have "str_rfind (CHR '']'') ((''Result: ['' @ digits) @ '']'') = int (0 + length (''Result: ['' @ digits))"
    unfolding str_rfind_def by (rule rfind_from_last)
  then have last: "str_rfind (CHR '']'') long_integer_output = 5009"
    by (simp add: whole len)
  have span: "py_slice long_integer_output 8 5010 = long_integer_array"
    by (simp add: py_slice_def slice_index_def whole array len)
  have raised: "digit_limit_loads long_integer_array = Inl (OtherException ''ValueError'')"
    by (simp add: digit_limit_loads_def)
  have "extract_json digit_limit_loads long_integer_output = Inl (OtherException ''ValueError'')"
    by (simp add: extract_json_def Let_def plain direct bracket_pairs_def no_brace first last span raised)
  with plain direct show ?thesis
    by simp
qed

end
